theory Spec2Isabelle
  imports Main "HOL-Library.Log_Nat" "HOL-Library.AList"
begin

section \<open>Python values used by the analyser\<close>

text \<open>
  The program is \<^verbatim>\<open>src/media_quality_check/cli.py\<close>. Uncaught Python exceptions and
  \<^verbatim>\<open>sys.exit\<close> are values of \<open>error\<close>; a function that can raise returns
  \<open>error + 'a\<close> with \<open>Inl\<close> for the exception. Output printed before an uncaught
  exception is not tracked.
\<close>

datatype error =
    ValueError
  | ZeroDivisionError
  | ProbeError
  | SystemExit int

subsection \<open>Floats\<close>

text \<open>
  A Python float is modelled by the rational it denotes. Every arithmetic operation
  rounds its exact result to the nearest binary64 value (53 significant bits, ties to
  even), as IEEE 754 arithmetic does. Infinities, NaN, signed zero and the limits of the
  exponent range are not modelled.
\<close>

type_synonym pyfloat = rat

definition pow2 :: "int \<Rightarrow> rat" where
  "pow2 i = (if 0 \<le> i then 2 ^ nat i else 1 / 2 ^ nat (- i))"

text \<open>\<open>ilog2 x\<close> is the exponent \<open>e\<close> with \<open>2^e \<le> x < 2^(e+1)\<close>, for \<open>x > 0\<close>.\<close>

definition ilog2 :: "rat \<Rightarrow> int" where
  "ilog2 x =
     (let (p, q) = quotient_of x;
          k = bitlen p - bitlen q
      in if pow2 k \<le> x then k else k - 1)"

definition round_half_even :: "rat \<Rightarrow> int" where
  "round_half_even r =
     (let f = \<lfloor>r\<rfloor>; d = r - of_int f
      in if d < 1 / 2 then f
         else if 1 / 2 < d then f + 1
         else if even f then f else f + 1)"

definition rnd64 :: "rat \<Rightarrow> pyfloat" where
  "rnd64 x =
     (if x = 0 then 0
      else let u = pow2 (ilog2 \<bar>x\<bar> - 52)
           in of_int (round_half_even (x / u)) * u)"

definition fadd :: "pyfloat \<Rightarrow> pyfloat \<Rightarrow> pyfloat" where
  "fadd a b = rnd64 (a + b)"

definition fmul :: "pyfloat \<Rightarrow> pyfloat \<Rightarrow> pyfloat" where
  "fmul a b = rnd64 (a * b)"

text \<open>
  \<^verbatim>\<open>a / b\<close>, on floats and on integers alike: true division, correctly rounded,
  raising on a zero divisor.
\<close>

definition py_truediv :: "rat \<Rightarrow> rat \<Rightarrow> error + pyfloat" where
  "py_truediv a b = (if b = 0 then Inl ZeroDivisionError else Inr (rnd64 (a / b)))"

text \<open>
  \<^verbatim>\<open>round(x, ndigits)\<close> on a float: CPython rounds the exact binary value to
  \<open>ndigits\<close> decimals, an exact tie going to the even digit, and returns the float
  nearest to that decimal.
\<close>

definition py_round :: "pyfloat \<Rightarrow> nat \<Rightarrow> pyfloat" where
  "py_round x ndigits = rnd64 (of_int (round_half_even (x * 10 ^ ndigits)) / 10 ^ ndigits)"

text \<open>\<^verbatim>\<open>int(x)\<close> on a float truncates towards zero.\<close>

definition py_trunc :: "pyfloat \<Rightarrow> int" where
  "py_trunc x = (if 0 \<le> x then \<lfloor>x\<rfloor> else \<lceil>x\<rceil>)"

subsection \<open>Strings\<close>

text \<open>
  Strings are lists of 8-bit characters; the metadata handled here is ASCII, where
  \<^verbatim>\<open>str.lower\<close> maps \<open>A..Z\<close> to \<open>a..z\<close> and leaves every other character.
\<close>

definition lower_char :: "char \<Rightarrow> char" where
  "lower_char c =
     (let n = (of_char c :: nat)
      in if 65 \<le> n \<and> n \<le> 90 then char_of (n + 32) else c)"

definition py_lower :: "string \<Rightarrow> string" where
  "py_lower s = map lower_char s"

definition startswith :: "string \<Rightarrow> string \<Rightarrow> bool" where
  "startswith s p = (take (length p) s = p)"

text \<open>\<^verbatim>\<open>needle in hay\<close> on strings: \<open>needle\<close> occurs as a contiguous substring.\<close>

fun py_in :: "string \<Rightarrow> string \<Rightarrow> bool" where
  "py_in needle [] = (needle = [])"
| "py_in needle (c # cs) = (startswith (c # cs) needle \<or> py_in needle cs)"

text \<open>\<^verbatim>\<open>" ".join(parts)\<close>.\<close>

fun join_sp :: "string list \<Rightarrow> string" where
  "join_sp [] = []"
| "join_sp [x] = x"
| "join_sp (x # y # ys) = x @ '' '' @ join_sp (y # ys)"

text \<open>
  \<^verbatim>\<open>int(s)\<close> on a string: surrounding whitespace is stripped, one sign is allowed,
  and the rest must be decimal digits, single underscores being allowed between digits.
\<close>

definition is_space :: "char \<Rightarrow> bool" where
  "is_space c = (c \<in> set [CHR 0x20, CHR 0x09, CHR 0x0A, CHR 0x0B, CHR 0x0C, CHR 0x0D])"

definition is_digit :: "char \<Rightarrow> bool" where
  "is_digit c = (let n = (of_char c :: nat) in 48 \<le> n \<and> n \<le> 57)"

definition digit_val :: "char \<Rightarrow> int" where
  "digit_val c = int (of_char c) - 48"

definition py_strip :: "string \<Rightarrow> string" where
  "py_strip s = rev (dropWhile is_space (rev (dropWhile is_space s)))"

text \<open>
  \<open>digits_ok prev_digit s\<close>: \<open>s\<close> continues a digit string in which the previous
  character was a digit (or not), and ends on a digit.
\<close>

fun digits_ok :: "bool \<Rightarrow> string \<Rightarrow> bool" where
  "digits_ok prev [] = prev"
| "digits_ok prev (c # cs) =
     (if is_digit c then digits_ok True cs
      else if c = CHR ''_'' \<and> prev then digits_ok False cs
      else False)"

definition digits_value :: "string \<Rightarrow> int" where
  "digits_value s = foldl (\<lambda>acc c. acc * 10 + digit_val c) 0 (filter is_digit s)"

definition py_int :: "string \<Rightarrow> error + int" where
  "py_int s =
     (let t = py_strip s;
          (neg, body) =
            (case t of
               [] \<Rightarrow> (False, [])
             | c # cs \<Rightarrow>
                 if c = CHR ''-'' then (True, cs)
                 else if c = CHR ''+'' then (False, cs)
                 else (False, t))
      in if digits_ok False body
         then Inr (if neg then - digits_value body else digits_value body)
         else Inl ValueError)"

section \<open>Metadata records\<close>

text \<open>
  \<^verbatim>\<open>run_ffprobe\<close> returns the parsed JSON of ffprobe: a list of stream dictionaries
  and a format dictionary. A dictionary is a record of the keys the program reads, each
  optional (\<open>None\<close>: the key is absent). ffprobe prints \<open>bit_rate\<close>, \<open>size\<close> and
  \<open>duration\<close> as decimal strings, which the program converts with \<^verbatim>\<open>int\<close> and
  \<^verbatim>\<open>float\<close>; the records hold the number the string denotes, so a present
  \<open>bit_rate\<close> is a non-empty string and is truthy. Tag values are free text and stay
  strings. \<open>attached_pic\<close> is the entry of that name in the stream's
  \<open>disposition\<close>, and \<open>side_data_list\<close> holds the \<open>side_data_type\<close> of each entry.
\<close>

record stream =
  codec_type :: "string option"
  codec_name :: "string option"
  codec_long_name :: "string option"
  profile :: "string option"
  channels :: "int option"
  bit_rate :: "int option"
  tags :: "(string \<times> string) list"
  width :: "int option"
  color_transfer :: "string option"
  codec_tag_string :: "string option"
  side_data_list :: "string option list"
  attached_pic :: "int option"

record format =
  fmt_size :: "int option"
  fmt_duration :: "rat option"

record probe_data =
  streams :: "stream list"
  format :: format

text \<open>\<^verbatim>\<open>d.get(k, default)\<close> and \<^verbatim>\<open>d.get(k) or default\<close> on an optional field.\<close>

definition get_or :: "'a option \<Rightarrow> 'a \<Rightarrow> 'a" where
  "get_or x d = (case x of None \<Rightarrow> d | Some y \<Rightarrow> y)"

section \<open>Video helpers\<close>

fun dovi_side_data :: "string option list \<Rightarrow> bool" where
  "dovi_side_data [] = False"
| "dovi_side_data (sd # sds) =
     (let sdt = py_lower (get_or sd [])
      in if py_in ''dovi'' sdt \<or> py_in ''dolby vision'' sdt then True
         else dovi_side_data sds)"

definition detect_dolby_vision :: "stream \<Rightarrow> bool" where
  "detect_dolby_vision video_stream =
     (if dovi_side_data (side_data_list video_stream) then True
      else let tag = py_lower (get_or (codec_tag_string video_stream) [])
           in tag = ''dvh1'' \<or> tag = ''dvhe'')"

definition get_video_bitrate_mbps :: "stream \<Rightarrow> format \<Rightarrow> error + pyfloat" where
  "get_video_bitrate_mbps v fmt =
     (case bit_rate v of
        Some br \<Rightarrow> py_truediv (of_int br) 1000000
      | None \<Rightarrow>
          (let size = rnd64 (of_int (get_or (fmt_size fmt) 0));
               duration = rnd64 (get_or (fmt_duration fmt) 1)
           in case py_truediv (fmul size 8) duration of
                Inl e \<Rightarrow> Inl e
              | Inr x \<Rightarrow> py_truediv x 1000000))"

definition compute_video_score ::
  "stream \<Rightarrow> format \<Rightarrow> bool \<Rightarrow> bool \<Rightarrow> error + (pyfloat \<times> pyfloat \<times> string)" where
  "compute_video_score v fmt is_hdr is_dv =
     (let w = get_or (width v) 0
      in case get_video_bitrate_mbps v fmt of
           Inl e \<Rightarrow> Inl e
         | Inr vbps \<Rightarrow>
             Inr (if 3840 \<le> w then
                    (if is_dv \<or> is_hdr then
                       (if 15 \<le> vbps then (5, vbps, ''REFERENCE QUALITY'')
                        else if 12 \<le> vbps then (9 / 2, vbps, ''EXCELLENT'')
                        else (4, vbps, ''GOOD''))
                     else
                       (if 20 \<le> vbps then (9 / 2, vbps, ''EXCELLENT'')
                        else (4, vbps, ''GOOD'')))
                  else if 1920 \<le> w then
                    (if 30 \<le> vbps then (9 / 2, vbps, ''EXCELLENT'')
                     else if 20 \<le> vbps then (4, vbps, ''GOOD'')
                     else (7 / 2, vbps, ''MEDIUM''))
                  else if 1280 \<le> w then (3, vbps, ''MEDIUM'')
                  else (2, vbps, ''LOW'')))"

section \<open>Audio helpers\<close>

definition object_markers :: "string list" where
  "object_markers =
     [''atmos'', ''dts:x'', ''dtsx'', ''dts x'', ''auro'', ''auro-3d'', ''mpeg-h'', ''3d audio'']"

definition detect_object_audio :: "stream \<Rightarrow> bool \<times> string" where
  "detect_object_audio a =
     (let haystack =
            py_lower (join_sp [get_or (codec_name a) [], get_or (codec_long_name a) [],
                               get_or (profile a) [], join_sp (map snd (tags a))])
      in (list_ex (\<lambda>k. py_in k haystack) object_markers, haystack))"

text \<open>
  \<^verbatim>\<open>raw_br = a.get("bit_rate") or a.get("tags", {}).get("BPS")\<close>, then
  \<^verbatim>\<open>int(raw_br)\<close> where \<open>raw_br\<close> is truthy: \<open>Inr None\<close> stands for a falsy
  \<open>raw_br\<close> (no \<open>bit_rate\<close>, and no or an empty \<open>BPS\<close> tag).
\<close>

definition raw_br_int :: "stream \<Rightarrow> error + int option" where
  "raw_br_int a =
     (case bit_rate a of
        Some n \<Rightarrow> Inr (Some n)
      | None \<Rightarrow>
          (case map_of (tags a) ''BPS'' of
             None \<Rightarrow> Inr None
           | Some s \<Rightarrow>
               if s = [] then Inr None
               else (case py_int s of Inl e \<Rightarrow> Inl e | Inr n \<Rightarrow> Inr (Some n))))"

definition audio_br_kbps :: "stream \<Rightarrow> error + pyfloat" where
  "audio_br_kbps a =
     (case raw_br_int a of
        Inl e \<Rightarrow> Inl e
      | Inr None \<Rightarrow> Inr 0
      | Inr (Some n) \<Rightarrow> py_truediv (of_int n) 1000)"

text \<open>
  The body of the loop of \<^verbatim>\<open>compute_audio_score\<close> for one audio stream, up to
  \<^verbatim>\<open>min(score, 5.0)\<close>. The literals 5.0, 3.0 and 2.0 are binary64 values; the
  others are rounded.
\<close>

definition audio_stream_score :: "stream \<Rightarrow> error + pyfloat" where
  "audio_stream_score a =
     (let codec = get_or (codec_name a) [];
          ch = get_or (channels a) 0;
          prof = py_lower (get_or (profile a) [])
      in case audio_br_kbps a of
           Inl e \<Rightarrow> Inl e
         | Inr br_kbps \<Rightarrow>
             (let (is_object, haystack) = detect_object_audio a;
                  is_lossless =
                    (codec = ''truehd'' \<or> (startswith codec ''dts'' \<and> py_in ''hd'' prof));
                  base =
                    (if is_lossless then 5
                     else if codec = ''eac3'' then
                       (if 640 \<le> br_kbps then rnd64 (46 / 10)
                        else if 448 \<le> br_kbps then rnd64 (42 / 10)
                        else if 384 \<le> br_kbps then rnd64 (38 / 10)
                        else if 256 \<le> br_kbps then rnd64 (33 / 10)
                        else rnd64 (24 / 10))
                     else if codec = ''ac3'' then
                       (if 640 \<le> br_kbps then rnd64 (38 / 10)
                        else if 448 \<le> br_kbps then rnd64 (34 / 10)
                        else 3)
                     else if codec = ''aac'' then
                       (if 6 \<le> ch \<and> 384 \<le> br_kbps then 3
                        else if 2 \<le> ch then rnd64 (24 / 10)
                        else 2)
                     else 2);
                  with_ch =
                    (if 8 \<le> ch then fadd base (rnd64 (2 / 10))
                     else if 6 \<le> ch then fadd base (rnd64 (1 / 10))
                     else base);
                  score =
                    (if is_object then
                       (if is_lossless then with_ch
                        else if codec = ''eac3'' \<and> 448 \<le> br_kbps
                          then fadd with_ch (rnd64 (15 / 100))
                        else if startswith codec ''dts'' \<and> 1500 \<le> br_kbps
                          then fadd with_ch (rnd64 (15 / 100))
                        else with_ch)
                     else with_ch)
              in Inr (min score 5)))"

fun audio_loop :: "pyfloat \<Rightarrow> stream list \<Rightarrow> error + pyfloat" where
  "audio_loop best [] = Inr best"
| "audio_loop best (a # as) =
     (if codec_type a \<noteq> Some ''audio'' then audio_loop best as
      else (case audio_stream_score a of
              Inl e \<Rightarrow> Inl e
            | Inr s \<Rightarrow> audio_loop (max best s) as))"

definition compute_audio_score :: "stream list \<Rightarrow> error + pyfloat" where
  "compute_audio_score strs = audio_loop 0 strs"

section \<open>Analysis\<close>

text \<open>
  What the program prints, one event per line group. Of a stream's line only the parts
  computed by the scoring code are kept (the HDR label and bitrate of a video stream,
  the bitrate and object-audio variant of an audio stream).
\<close>

datatype event =
    FileNotFound string
  | FileHeader string
  | VideoLine string pyfloat
  | AudioLine "int option" string
  | MediaScoreLine pyfloat
  | VerdictLine string
  | PreferredFile string
  | UsageLine

text \<open>
  The state of a run: the global dictionary \<^verbatim>\<open>FILE_MEDIA_SCORE\<close>, in insertion
  order, and the output so far.
\<close>

record state =
  file_media_score :: "(string \<times> (pyfloat \<times> pyfloat)) list"
  out :: "event list"

text \<open>
  The environment: \<open>path_str f\<close> is \<^verbatim>\<open>str(Path(f))\<close>, \<open>file_exists\<close> is
  \<^verbatim>\<open>Path.exists\<close>, and \<open>run_ffprobe\<close> is the external probe, which raises when
  ffprobe fails or prints no JSON.
\<close>

record world =
  path_str :: "string \<Rightarrow> string"
  file_exists :: "string \<Rightarrow> bool"
  run_ffprobe :: "string \<Rightarrow> error + probe_data"

text \<open>
  \<^verbatim>\<open>max(xs, key=k)\<close>: the first element whose key no later element exceeds;
  \<^verbatim>\<open>ValueError\<close> on an empty sequence. \<open>lt\<close> is the strict order of the keys.
\<close>

definition py_max_by :: "('k \<Rightarrow> 'k \<Rightarrow> bool) \<Rightarrow> ('a \<Rightarrow> 'k) \<Rightarrow> 'a list \<Rightarrow> error + 'a" where
  "py_max_by lt key xs =
     (case xs of
        [] \<Rightarrow> Inl ValueError
      | x # ys \<Rightarrow> Inr (foldl (\<lambda>best y. if lt (key best) (key y) then y else best) x ys))"

text \<open>The order of Python tuples of two floats.\<close>

fun tuple_less :: "pyfloat \<times> pyfloat \<Rightarrow> pyfloat \<times> pyfloat \<Rightarrow> bool" where
  "tuple_less (a, b) (c, d) = (a < c \<or> (a = c \<and> b < d))"

definition video_streams_of :: "stream list \<Rightarrow> stream list" where
  "video_streams_of strs =
     filter (\<lambda>s. codec_type s = Some ''video'' \<and> get_or (attached_pic s) 0 \<noteq> 1) strs"

definition audio_streams_of :: "stream list \<Rightarrow> stream list" where
  "audio_streams_of strs = filter (\<lambda>s. codec_type s = Some ''audio'') strs"

text \<open>
  One pass of the loop over the video streams: the stream's label and the flags
  \<open>(is_hdr, is_dv)\<close> after it.
\<close>

definition video_step :: "stream \<Rightarrow> bool \<times> bool \<Rightarrow> string \<times> bool \<times> bool" where
  "video_step v flags =
     (let (is_hdr, is_dv) = flags;
          transfer = get_or (color_transfer v) [];
          dovi = detect_dolby_vision v
      in if dovi then (''Dolby Vision'', True, True)
         else if transfer = ''smpte2084'' \<or> transfer = ''arib-std-b67''
           then (''HDR'', True, is_dv)
         else (''SDR'', is_hdr, is_dv))"

text \<open>
  The classification of one video stream: its label and the flags it sets on its own,
  from flags that are both off.
\<close>

definition hdr_label :: "stream \<Rightarrow> string" where
  "hdr_label v = fst (video_step v (False, False))"

definition stream_is_hdr :: "stream \<Rightarrow> bool" where
  "stream_is_hdr v = fst (snd (video_step v (False, False)))"

definition stream_is_dv :: "stream \<Rightarrow> bool" where
  "stream_is_dv v = snd (snd (video_step v (False, False)))"

fun video_loop ::
  "format \<Rightarrow> stream list \<Rightarrow> bool \<times> bool \<Rightarrow> event list \<Rightarrow> error + ((bool \<times> bool) \<times> event list)" where
  "video_loop fmt [] flags ls = Inr (flags, ls)"
| "video_loop fmt (v # vs) flags ls =
     (let (hdr_label, is_hdr, is_dv) = video_step v flags
      in case get_video_bitrate_mbps v fmt of
           Inl e \<Rightarrow> Inl e
         | Inr vbps \<Rightarrow> video_loop fmt vs (is_hdr, is_dv) (ls @ [VideoLine hdr_label vbps]))"

definition object_type :: "bool \<Rightarrow> string \<Rightarrow> string" where
  "object_type is_object haystack =
     (if is_object then
        (if py_in ''atmos'' haystack then ''Atmos''
         else if py_in ''dts:x'' haystack \<or> py_in ''dtsx'' haystack \<or> py_in ''dts x'' haystack
           then ''DTS:X''
         else if py_in ''auro'' haystack \<or> py_in ''auro-3d'' haystack then ''Auro-3D''
         else if py_in ''mpeg-h'' haystack \<or> py_in ''3d audio'' haystack then ''MPEG-H''
         else [])
      else [])"

fun audio_lines :: "stream list \<Rightarrow> event list \<Rightarrow> error + event list" where
  "audio_lines [] ls = Inr ls"
| "audio_lines (a # as) ls =
     (case raw_br_int a of
        Inl e \<Rightarrow> Inl e
      | Inr r \<Rightarrow>
          (let br = (case r of
                       None \<Rightarrow> None
                     | Some n \<Rightarrow> Some (py_trunc (rnd64 (of_int n / 1000))));
               (is_object, haystack) = detect_object_audio a
           in audio_lines as (ls @ [AudioLine br (object_type is_object haystack)])))"

definition media_score_of :: "pyfloat \<Rightarrow> pyfloat \<Rightarrow> pyfloat" where
  "media_score_of video_score audio_score =
     py_round (min (fadd (fmul video_score (rnd64 (7 / 10))) (fmul audio_score (rnd64 (3 / 10)))) 5) 2"

text \<open>
  The scoring part of \<^verbatim>\<open>analyze_file\<close>, from the probe's data to the media score,
  bitrate and verdict with the lines printed on the way.
\<close>

definition score_file :: "probe_data \<Rightarrow> error + ((pyfloat \<times> pyfloat \<times> string) \<times> event list)" where
  "score_file data =
     (let fmt = format data;
          video_streams = video_streams_of (streams data)
      in case video_loop fmt video_streams (False, False) [] of
           Inl e \<Rightarrow> Inl e
         | Inr ((is_hdr, is_dv), vlines) \<Rightarrow>
             (case py_max_by (<) (\<lambda>x. get_or (width x) 0) video_streams of
                Inl e \<Rightarrow> Inl e
              | Inr best_video \<Rightarrow>
                  (case compute_video_score best_video fmt is_hdr is_dv of
                     Inl e \<Rightarrow> Inl e
                   | Inr (video_score, vbps, video_verdict) \<Rightarrow>
                       (let audio_streams = audio_streams_of (streams data)
                        in case audio_lines audio_streams [] of
                             Inl e \<Rightarrow> Inl e
                           | Inr alines \<Rightarrow>
                               (case compute_audio_score audio_streams of
                                  Inl e \<Rightarrow> Inl e
                                | Inr audio_score \<Rightarrow>
                                    (let media_score = media_score_of video_score audio_score
                                     in Inr ((media_score, vbps, video_verdict),
                                             vlines @ alines @
                                             [MediaScoreLine media_score,
                                              VerdictLine video_verdict])))))))"

definition analyze_file :: "world \<Rightarrow> string \<Rightarrow> state \<Rightarrow> error + state" where
  "analyze_file w file st =
     (let p = path_str w file
      in if \<not> file_exists w p then Inr (st\<lparr>out := out st @ [FileNotFound p]\<rparr>)
         else (case run_ffprobe w p of
                 Inl e \<Rightarrow> Inl e
               | Inr data \<Rightarrow>
                   (case score_file data of
                      Inl e \<Rightarrow> Inl e
                    | Inr ((media_score, vbps, video_verdict), ls) \<Rightarrow>
                        Inr \<lparr>file_media_score =
                               AList.update p (media_score, vbps) (file_media_score st),
                             out = out st @ [FileHeader p] @ ls\<rparr>)))"

fun analyze_all :: "world \<Rightarrow> string list \<Rightarrow> state \<Rightarrow> error + state" where
  "analyze_all w [] st = Inr st"
| "analyze_all w (f # fs) st =
     (case analyze_file w f st of
        Inl e \<Rightarrow> Inl e
      | Inr st' \<Rightarrow> analyze_all w fs st')"

text \<open>The results of a list of computations, or the first exception among them.\<close>

fun collect :: "(error + 'a) list \<Rightarrow> error + 'a list" where
  "collect [] = Inr []"
| "collect (r # rs) =
     (case r of
        Inl e \<Rightarrow> Inl e
      | Inr x \<Rightarrow> (case collect rs of Inl e \<Rightarrow> Inl e | Inr xs \<Rightarrow> Inr (x # xs)))"

definition best_file :: "(string \<times> (pyfloat \<times> pyfloat)) list \<Rightarrow> error + string" where
  "best_file items =
     (case py_max_by tuple_less (\<lambda>x. (fst (snd x), snd (snd x))) items of
        Inl e \<Rightarrow> Inl e
      | Inr x \<Rightarrow> Inr (fst x))"

definition display :: "string \<Rightarrow> string" where
  "display best = (if length best \<le> 100 then best else ''...'' @ drop (length best - 97) best)"

definition main :: "world \<Rightarrow> string list \<Rightarrow> error + state" where
  "main w argv =
     (if length argv < 2 then Inl (SystemExit 1)
      else (case analyze_all w (tl argv) \<lparr>file_media_score = [], out = []\<rparr> of
              Inl e \<Rightarrow> Inl e
            | Inr st \<Rightarrow>
                if 2 < length argv then
                  (case best_file (file_media_score st) of
                     Inl e \<Rightarrow> Inl e
                   | Inr best \<Rightarrow> Inr (st\<lparr>out := out st @ [PreferredFile (display best)]\<rparr>))
                else Inr st))"

section \<open>The specification's tables\<close>

text \<open>
  The decision table of the specification's video scorer, row by row: the width bracket
  (\<open>None\<close>: the last, "else" bracket), whether the row asks for the HDR/DV flag
  (\<open>None\<close>: either), the least bitrate in Mbps (\<open>None\<close>: any), the score and the
  verdict. A row is looked up top-down within the bracket of the width.
\<close>

definition spec_video_table :: "(int option \<times> bool option \<times> rat option \<times> pyfloat \<times> string) list" where
  "spec_video_table =
     [(Some 3840, Some True, Some 15, 5, ''REFERENCE QUALITY''),
      (Some 3840, Some True, Some 12, 9 / 2, ''EXCELLENT''),
      (Some 3840, Some True, None, 4, ''GOOD''),
      (Some 3840, Some False, Some 20, 9 / 2, ''EXCELLENT''),
      (Some 3840, Some False, None, 4, ''GOOD''),
      (Some 1920, None, Some 30, 9 / 2, ''EXCELLENT''),
      (Some 1920, None, Some 20, 4, ''GOOD''),
      (Some 1920, None, None, 7 / 2, ''MEDIUM''),
      (Some 1280, None, None, 3, ''MEDIUM''),
      (None, None, None, 2, ''LOW'')]"

definition spec_width_bracket :: "int \<Rightarrow> int option" where
  "spec_width_bracket w =
     (if 3840 \<le> w then Some 3840 else if 1920 \<le> w then Some 1920
      else if 1280 \<le> w then Some 1280 else None)"

fun spec_row_matches ::
  "int \<Rightarrow> bool \<Rightarrow> pyfloat \<Rightarrow> int option \<times> bool option \<times> rat option \<times> pyfloat \<times> string \<Rightarrow> bool" where
  "spec_row_matches w hdr vbps (rw, rh, rb, sc, vd) =
     (rw = spec_width_bracket w \<and>
      (case rh of None \<Rightarrow> True | Some h \<Rightarrow> h = hdr) \<and>
      (case rb of None \<Rightarrow> True | Some b \<Rightarrow> b \<le> vbps))"

definition spec_table_lookup :: "int \<Rightarrow> bool \<Rightarrow> pyfloat \<Rightarrow> (pyfloat \<times> string) option" where
  "spec_table_lookup w hdr vbps =
     map_option (\<lambda>(rw, rh, rb, sc, vd). (sc, vd)) (find (spec_row_matches w hdr vbps) spec_video_table)"

text \<open>
  The audio scorer of the specification, for one stream: a base score by codec family
  and bitrate tier, the channel bonus, the object-audio bonus, and the clamp. A tier list
  is read top-down, the first tier whose bitrate is reached giving the score.
\<close>

definition spec_lossless :: "string \<Rightarrow> string \<Rightarrow> bool" where
  "spec_lossless codec prof =
     (codec = ''truehd'' \<or> (startswith codec ''dts'' \<and> py_in ''hd'' prof))"

definition spec_tier_score :: "(rat \<times> pyfloat) list \<Rightarrow> pyfloat \<Rightarrow> pyfloat \<Rightarrow> pyfloat" where
  "spec_tier_score tiers other br =
     (case find (\<lambda>(least, sc). least \<le> br) tiers of None \<Rightarrow> other | Some (least, sc) \<Rightarrow> sc)"

definition spec_base_score :: "string \<Rightarrow> string \<Rightarrow> int \<Rightarrow> pyfloat \<Rightarrow> pyfloat" where
  "spec_base_score codec prof ch br =
     (if spec_lossless codec prof then 5
      else if codec = ''eac3'' then
        spec_tier_score [(640, rnd64 (46 / 10)), (448, rnd64 (42 / 10)),
                    (384, rnd64 (38 / 10)), (256, rnd64 (33 / 10))] (rnd64 (24 / 10)) br
      else if codec = ''ac3'' then
        spec_tier_score [(640, rnd64 (38 / 10)), (448, rnd64 (34 / 10))] 3 br
      else if codec = ''aac'' then
        (if 6 \<le> ch \<and> 384 \<le> br then 3 else if 2 \<le> ch then rnd64 (24 / 10) else 2)
      else 2)"

definition spec_channel_bonus :: "int \<Rightarrow> pyfloat option" where
  "spec_channel_bonus ch =
     (if 8 \<le> ch then Some (rnd64 (2 / 10)) else if 6 \<le> ch then Some (rnd64 (1 / 10)) else None)"

definition spec_object_bonus :: "string \<Rightarrow> string \<Rightarrow> bool \<Rightarrow> pyfloat \<Rightarrow> pyfloat option" where
  "spec_object_bonus codec prof is_object br =
     (if is_object \<and> \<not> spec_lossless codec prof \<and>
         ((codec = ''eac3'' \<and> 448 \<le> br) \<or> (startswith codec ''dts'' \<and> 1500 \<le> br))
      then Some (rnd64 (15 / 100)) else None)"

definition add_bonus :: "pyfloat \<Rightarrow> pyfloat option \<Rightarrow> pyfloat" where
  "add_bonus score b = (case b of None \<Rightarrow> score | Some x \<Rightarrow> fadd score x)"

definition spec_audio_stream_score :: "string \<Rightarrow> string \<Rightarrow> int \<Rightarrow> bool \<Rightarrow> pyfloat \<Rightarrow> pyfloat" where
  "spec_audio_stream_score codec prof ch is_object br =
     min (add_bonus (add_bonus (spec_base_score codec prof ch br) (spec_channel_bonus ch))
            (spec_object_bonus codec prof is_object br)) 5"

section \<open>Example inputs\<close>

definition no_stream :: stream where
  "no_stream =
     \<lparr>codec_type = None, codec_name = None, codec_long_name = None, profile = None,
      channels = None, bit_rate = None, tags = [], width = None, color_transfer = None,
      codec_tag_string = None, side_data_list = [], attached_pic = None\<rparr>"

definition no_format :: format where
  "no_format = \<lparr>fmt_size = None, fmt_duration = None\<rparr>"

text \<open>A container of 9 GB: running two hours, of unknown duration, and of duration zero.\<close>

definition ex_format :: format where
  "ex_format = \<lparr>fmt_size = Some 9000000000, fmt_duration = Some 7200\<rparr>"

definition ex_format_no_duration :: format where
  "ex_format_no_duration = \<lparr>fmt_size = Some 9000000000, fmt_duration = None\<rparr>"

definition ex_format_zero_duration :: format where
  "ex_format_zero_duration = \<lparr>fmt_size = Some 9000000000, fmt_duration = Some 0\<rparr>"

text \<open>A 3840 wide Dolby Vision stream at 16 Mbps.\<close>

definition ex_uhd_dv :: stream where
  "ex_uhd_dv =
     no_stream\<lparr>codec_type := Some ''video'', codec_name := Some ''hevc'',
       bit_rate := Some 16000000, width := Some 3840, codec_tag_string := Some ''dvh1''\<rparr>"

text \<open>A 3840 wide SDR stream at 16 Mbps, and a 1920 wide Dolby Vision stream at 5 Mbps.\<close>

definition ex_uhd_sdr :: stream where
  "ex_uhd_sdr =
     no_stream\<lparr>codec_type := Some ''video'', codec_name := Some ''hevc'',
       bit_rate := Some 16000000, width := Some 3840, color_transfer := Some ''bt709''\<rparr>"

definition ex_hd_dv :: stream where
  "ex_hd_dv =
     no_stream\<lparr>codec_type := Some ''video'', codec_name := Some ''hevc'',
       bit_rate := Some 5000000, width := Some 1920,
       side_data_list := [Some ''DOVI configuration record'']\<rparr>"

text \<open>An HDR10 stream that is not Dolby Vision.\<close>

definition ex_hdr10 :: stream where
  "ex_hdr10 =
     no_stream\<lparr>codec_type := Some ''video'', width := Some 3840,
       color_transfer := Some ''smpte2084''\<rparr>"

text \<open>A video stream with no bit rate of its own, and cover art.\<close>

definition ex_no_bit_rate :: stream where
  "ex_no_bit_rate = no_stream\<lparr>codec_type := Some ''video'', width := Some 1920\<rparr>"

definition ex_cover :: stream where
  "ex_cover =
     no_stream\<lparr>codec_type := Some ''video'', width := Some 600, attached_pic := Some 1\<rparr>"

text \<open>Stereo E-AC-3 at 640 kbps; TrueHD with Atmos, 8 channels; stereo AAC.\<close>

definition ex_eac3 :: stream where
  "ex_eac3 =
     no_stream\<lparr>codec_type := Some ''audio'', codec_name := Some ''eac3'',
       channels := Some 2, bit_rate := Some 640000\<rparr>"

definition ex_truehd :: stream where
  "ex_truehd =
     no_stream\<lparr>codec_type := Some ''audio'', codec_name := Some ''truehd'',
       profile := Some ''Dolby TrueHD + Dolby Atmos'', channels := Some 8\<rparr>"

definition ex_aac :: stream where
  "ex_aac =
     no_stream\<lparr>codec_type := Some ''audio'', codec_name := Some ''aac'',
       channels := Some 2, tags := [(''language'', ''eng''), (''BPS'', ''128000'')]\<rparr>"

definition ex_one_video :: probe_data where
  "ex_one_video = \<lparr>streams = [ex_uhd_sdr], format = no_format\<rparr>"

definition ex_two_videos :: probe_data where
  "ex_two_videos = \<lparr>streams = [ex_uhd_sdr, ex_hd_dv], format = no_format\<rparr>"

definition ex_audio_only :: probe_data where
  "ex_audio_only = \<lparr>streams = [ex_cover, ex_eac3], format = no_format\<rparr>"

definition ex_movie :: probe_data where
  "ex_movie = \<lparr>streams = [ex_uhd_dv, ex_eac3], format = no_format\<rparr>"

text \<open>
  A file system with the files \<open>a.mkv\<close> (the movie) and \<open>b.mkv\<close> (cover art and
  audio only), and nothing else.
\<close>

definition ex_world :: world where
  "ex_world =
     \<lparr>path_str = (\<lambda>f. f),
      file_exists = (\<lambda>p. p = ''a.mkv'' \<or> p = ''b.mkv''),
      run_ffprobe = (\<lambda>p. if p = ''a.mkv'' then Inr ex_movie
                          else if p = ''b.mkv'' then Inr ex_audio_only
                          else Inl ProbeError)\<rparr>"

definition empty_state :: state where
  "empty_state = \<lparr>file_media_score = [], out = []\<rparr>"

section \<open>Facts about the float model\<close>

lemma pow2_pos: "0 < pow2 i"
  by (simp add: pow2_def)

lemma pow2_Suc: "pow2 (i + 1) = 2 * pow2 i"
proof (cases "0 \<le> i")
  case True
  then have "nat (i + 1) = Suc (nat i)" by simp
  with True show ?thesis by (simp add: pow2_def)
next
  case False
  then have "nat (- i) = Suc (nat (- (i + 1)))" by simp
  with False show ?thesis by (simp add: pow2_def)
qed

lemma pow2_add_nat: "pow2 (i + int k) = 2 ^ k * pow2 i"
proof (induction k)
  case 0
  show ?case by simp
next
  case (Suc k)
  have "i + int (Suc k) = (i + int k) + 1" by simp
  then have "pow2 (i + int (Suc k)) = 2 * pow2 (i + int k)" by (simp only: pow2_Suc)
  with Suc show ?case by simp
qed

lemma pow2_diff: "pow2 (int m - int n) = 2 ^ m / 2 ^ n"
proof (cases "n \<le> m")
  case True
  then have "nat (int m - int n) = m - n" by simp
  with True show ?thesis by (simp add: pow2_def power_diff)
next
  case False
  then have "nat (- (int m - int n)) = n - m" by simp
  moreover have "(2::rat) ^ n = 2 ^ (n - m) * 2 ^ m"
    using False by (simp flip: power_add)
  ultimately show ?thesis using False by (simp add: pow2_def)
qed

lemma ilog2_bounds:
  assumes "0 < x"
  shows "pow2 (ilog2 x) \<le> x \<and> x < pow2 (ilog2 x + 1)"
proof -
  obtain p q where pq: "quotient_of x = (p, q)" by (cases "quotient_of x")
  then have q: "0 < q" by (rule quotient_of_denom_pos)
  have x: "x = of_int p / of_int q" using pq by (rule quotient_of_div)
  with assms q have p: "0 < p" by (simp add: zero_less_divide_iff)
  define bp bq where "bp = nat (bitlen p)" and "bq = nat (bitlen q)"
  have bp: "bitlen p = int bp" and bq: "bitlen q = int bq"
    by (simp_all add: bp_def bq_def bitlen_nonneg)
  have bp0: "0 < bp" and bq0: "0 < bq"
    using p q bp bq bitlen_eq_zero_iff [of p] bitlen_eq_zero_iff [of q] by (auto intro: Nat.gr0I)
  from bitlen_bounds [OF p] have "2 ^ (bp - 1) \<le> p" "p < 2 ^ bp"
    using bp bp0 by (simp_all add: nat_diff_distrib)
  then have P: "(2::rat) ^ (bp - 1) \<le> of_int p" "of_int p < (2::rat) ^ bp"
    by (metis of_int_le_iff of_int_numeral of_int_power, metis of_int_less_iff of_int_numeral of_int_power)
  from bitlen_bounds [OF q] have "2 ^ (bq - 1) \<le> q" "q < 2 ^ bq"
    using bq bq0 by (simp_all add: nat_diff_distrib)
  then have Q: "(2::rat) ^ (bq - 1) \<le> of_int q" "of_int q < (2::rat) ^ bq"
    by (metis of_int_le_iff of_int_numeral of_int_power, metis of_int_less_iff of_int_numeral of_int_power)
  have qr: "(0::rat) < of_int q" using q by simp
  have lo: "pow2 (int bp - int bq - 1) < x"
  proof -
    have "int bp - int bq - 1 = int (bp - 1) - int bq" using bp0 by (simp add: of_nat_diff)
    then have "pow2 (int bp - int bq - 1) = pow2 (int (bp - 1) - int bq)" by (rule arg_cong)
    also have "\<dots> = 2 ^ (bp - 1) / 2 ^ bq" by (rule pow2_diff)
    also have "\<dots> \<le> of_int p / 2 ^ bq" using P(1) by (simp add: divide_right_mono)
    also have "\<dots> < of_int p / of_int q"
      using Q(2) qr p by (simp add: divide_strict_left_mono)
    finally show ?thesis by (simp only: x [symmetric])
  qed
  have hi: "x < pow2 (int bp - int bq + 1)"
  proof -
    have "x = of_int p / of_int q" by (rule x)
    also have "\<dots> < 2 ^ bp / of_int q" using P(2) qr by (simp add: divide_strict_right_mono)
    also have "\<dots> \<le> 2 ^ bp / 2 ^ (bq - 1)"
      using Q(1) qr by (simp add: divide_left_mono)
    also have "\<dots> = pow2 (int bp - int (bq - 1))" by (rule pow2_diff [symmetric])
    also have "int bp - int (bq - 1) = int bp - int bq + 1" using bq0 by (simp add: of_nat_diff)
    finally show ?thesis .
  qed
  show ?thesis
  proof (cases "pow2 (int bp - int bq) \<le> x")
    case True
    then have "ilog2 x = int bp - int bq" by (simp add: ilog2_def pq bp bq)
    with True hi show ?thesis by simp
  next
    case False
    then have e: "ilog2 x = int bp - int bq - 1" by (simp add: ilog2_def pq bp bq)
    from False have "x < pow2 (int bp - int bq)" by simp
    with lo e show ?thesis by simp
  qed
qed

lemma round_half_even_ge:
  assumes "of_int n \<le> r"
  shows "n \<le> round_half_even r"
proof -
  from assms have "n \<le> \<lfloor>r\<rfloor>" by (simp add: le_floor_iff)
  then show ?thesis by (simp add: round_half_even_def Let_def)
qed

lemma rnd64_nonneg:
  assumes "0 \<le> x"
  shows "0 \<le> rnd64 x"
proof (cases "x = 0")
  case True
  then show ?thesis by (simp add: rnd64_def)
next
  case False
  define u where "u = pow2 (ilog2 \<bar>x\<bar> - 52)"
  have u: "0 < u" by (simp add: u_def pow2_pos)
  with assms have "of_int 0 \<le> x / u" by simp
  then have "0 \<le> round_half_even (x / u)" by (rule round_half_even_ge)
  with u False show ?thesis by (simp add: rnd64_def Let_def u_def [symmetric])
qed

lemma rnd64_pos:
  assumes "0 < x"
  shows "0 < rnd64 x"
proof -
  define e where "e = ilog2 \<bar>x\<bar>"
  define u where "u = pow2 (e - 52)"
  have u: "0 < u" by (simp add: u_def pow2_pos)
  have "pow2 e \<le> x" using ilog2_bounds [of x] assms by (simp add: e_def)
  moreover have "u \<le> pow2 e"
  proof -
    have "pow2 e = 2 ^ 52 * u"
      using pow2_add_nat [of "e - 52" 52] by (simp add: u_def)
    with u show ?thesis by simp
  qed
  ultimately have "u \<le> x" by simp
  with u have "of_int 1 \<le> x / u" by (simp add: le_divide_eq)
  then have "1 \<le> round_half_even (x / u)" by (rule round_half_even_ge)
  then have "0 < (of_int (round_half_even (x / u)) :: rat)" by simp
  with u have "0 < of_int (round_half_even (x / u)) * u" by simp
  with assms show ?thesis by (simp add: rnd64_def Let_def u_def e_def)
qed

lemma round_half_even_le:
  assumes "r \<le> of_int n"
  shows "round_half_even r \<le> n"
proof (cases "r = of_int n")
  case True
  then show ?thesis by (simp add: round_half_even_def)
next
  case False
  with assms have "r < of_int n" by simp
  then have "\<lfloor>r\<rfloor> < n" by (simp add: floor_less_iff)
  then show ?thesis by (simp add: round_half_even_def Let_def)
qed

lemma pow2_52: "pow2 e = 2 ^ 52 * pow2 (e - 52)"
  using pow2_add_nat [of "e - 52" 52] by simp

lemma rnd64_neg:
  assumes "x < 0"
  shows "rnd64 x < 0"
proof -
  define e where "e = ilog2 \<bar>x\<bar>"
  define u where "u = pow2 (e - 52)"
  have u: "0 < u" by (simp add: u_def pow2_pos)
  have "pow2 e \<le> \<bar>x\<bar>" using ilog2_bounds [of "\<bar>x\<bar>"] assms by (simp add: e_def)
  moreover have "u \<le> pow2 e" using pow2_52 [of e] u by (simp add: u_def)
  ultimately have "u \<le> - x" using assms by simp
  with u have "x / u \<le> of_int (- 1)" by (simp add: divide_le_eq)
  then have "round_half_even (x / u) \<le> - 1" by (rule round_half_even_le)
  then have "(of_int (round_half_even (x / u)) :: rat) < 0" by simp
  with u have "of_int (round_half_even (x / u)) * u < 0" by (simp add: mult_less_0_iff)
  with assms show ?thesis by (simp add: rnd64_def Let_def u_def e_def)
qed

lemma rnd64_eq_0_iff: "rnd64 x = 0 \<longleftrightarrow> x = 0"
proof
  assume r: "rnd64 x = 0"
  show "x = 0"
  proof (rule ccontr)
    assume "x \<noteq> 0"
    then consider "0 < x" | "x < 0" by linarith
    then show False using rnd64_pos [of x] rnd64_neg [of x] r by cases simp_all
  qed
next
  assume "x = 0" then show "rnd64 x = 0" by (simp add: rnd64_def)
qed

lemma rnd64_1: "rnd64 1 = 1"
  by code_simp

section \<open>The video scorer\<close>

text \<open>
  C1. For every video stream and format record, the video scorer returns the score and
  verdict of the row that the decision table gives for the stream's width bracket, the
  HDR/Dolby-Vision flag and the derived bitrate, rows being read top-down, and it raises
  exactly when the bitrate derivation raises. In particular a width of at least 3840
  with the flag set and at least 15 Mbps gives 5.0 and REFERENCE QUALITY, and a width
  below 1280 gives 2.0 and LOW.
\<close>

theorem compute_video_score_table:
  "(\<forall>e. get_video_bitrate_mbps v fmt = Inl e \<longrightarrow>
        compute_video_score v fmt is_hdr is_dv = Inl e) \<and>
   (\<forall>vbps. get_video_bitrate_mbps v fmt = Inr vbps \<longrightarrow>
        (\<exists>sc vd. spec_table_lookup (get_or (width v) 0) (is_dv \<or> is_hdr) vbps = Some (sc, vd) \<and>
                 compute_video_score v fmt is_hdr is_dv = Inr (sc, vbps, vd))) \<and>
   (\<forall>vbps. get_video_bitrate_mbps v fmt = Inr vbps \<and> 3840 \<le> get_or (width v) 0 \<and>
           (is_dv \<or> is_hdr) \<and> 15 \<le> vbps \<longrightarrow>
        compute_video_score v fmt is_hdr is_dv = Inr (5, vbps, ''REFERENCE QUALITY'')) \<and>
   (\<forall>vbps. get_video_bitrate_mbps v fmt = Inr vbps \<and> get_or (width v) 0 < 1280 \<longrightarrow>
        compute_video_score v fmt is_hdr is_dv = Inr (2, vbps, ''LOW''))"
proof (intro conjI allI impI)
  fix e assume "get_video_bitrate_mbps v fmt = Inl e"
  then show "compute_video_score v fmt is_hdr is_dv = Inl e"
    by (simp add: compute_video_score_def)
next
  fix vbps assume b: "get_video_bitrate_mbps v fmt = Inr vbps"
  define w where "w = get_or (width v) 0"
  have c: "compute_video_score v fmt is_hdr is_dv =
      Inr (if 3840 \<le> w then
                    (if is_dv \<or> is_hdr then
                       (if 15 \<le> vbps then (5, vbps, ''REFERENCE QUALITY'')
                        else if 12 \<le> vbps then (9 / 2, vbps, ''EXCELLENT'')
                        else (4, vbps, ''GOOD''))
                     else
                       (if 20 \<le> vbps then (9 / 2, vbps, ''EXCELLENT'')
                        else (4, vbps, ''GOOD'')))
                  else if 1920 \<le> w then
                    (if 30 \<le> vbps then (9 / 2, vbps, ''EXCELLENT'')
                     else if 20 \<le> vbps then (4, vbps, ''GOOD'')
                     else (7 / 2, vbps, ''MEDIUM''))
                  else if 1280 \<le> w then (3, vbps, ''MEDIUM'')
                  else (2, vbps, ''LOW''))"
    using b by (simp add: compute_video_score_def w_def)
  show "\<exists>sc vd. spec_table_lookup (get_or (width v) 0) (is_dv \<or> is_hdr) vbps = Some (sc, vd) \<and>
                 compute_video_score v fmt is_hdr is_dv = Inr (sc, vbps, vd)"
    unfolding c w_def [symmetric]
    by (simp add: spec_table_lookup_def spec_video_table_def spec_width_bracket_def
          del: eq_divide_eq_numeral1 divide_eq_eq_numeral1)
next
  fix vbps
  assume "get_video_bitrate_mbps v fmt = Inr vbps \<and> 3840 \<le> get_or (width v) 0 \<and>
           (is_dv \<or> is_hdr) \<and> 15 \<le> vbps"
  then show "compute_video_score v fmt is_hdr is_dv = Inr (5, vbps, ''REFERENCE QUALITY'')"
    by (simp add: compute_video_score_def)
next
  fix vbps
  assume "get_video_bitrate_mbps v fmt = Inr vbps \<and> get_or (width v) 0 < 1280"
  then show "compute_video_score v fmt is_hdr is_dv = Inr (2, vbps, ''LOW'')"
    by (simp add: compute_video_score_def)
qed

theorem compute_video_score_table_witness:
  "get_video_bitrate_mbps ex_uhd_dv no_format = Inr 16 \<and>
   spec_table_lookup 3840 True 16 = Some (5, ''REFERENCE QUALITY'') \<and>
   compute_video_score ex_uhd_dv no_format False True = Inr (5, 16, ''REFERENCE QUALITY'') \<and>
   compute_video_score ex_cover no_format False False = Inr (2, 0, ''LOW'')"
proof -
  have b: "get_video_bitrate_mbps ex_uhd_dv no_format = Inr 16" by code_simp
  have w: "get_or (width ex_uhd_dv) 0 = 3840" by code_simp
  have b2: "get_video_bitrate_mbps ex_cover no_format = Inr 0" by code_simp
  have w2: "get_or (width ex_cover) 0 = 600" by code_simp
  have t: "spec_table_lookup 3840 True 16 = Some (5, ''REFERENCE QUALITY'')" by code_simp
  from compute_video_score_table [of ex_uhd_dv no_format False True] b w
  have "compute_video_score ex_uhd_dv no_format False True = Inr (5, 16, ''REFERENCE QUALITY'')"
    by simp
  moreover from compute_video_score_table [of ex_cover no_format False False] b2 w2
  have "compute_video_score ex_cover no_format False False = Inr (2, 0, ''LOW'')"
    by simp
  ultimately show ?thesis using b t by simp
qed

section \<open>The video bitrate\<close>

text \<open>
  C3 (as amended). The video bitrate in Mbps is the stream's bit rate divided by 1e6
  when the stream has one. Otherwise it is (size * 8) / duration / 1e6 in float
  arithmetic, a missing size counting as 0 and a missing duration as 1 second, provided
  the duration is not zero; a duration that is present and zero raises
  ZeroDivisionError.
\<close>

theorem get_video_bitrate_mbps_cases:
  "(\<forall>br. bit_rate v = Some br \<longrightarrow>
        get_video_bitrate_mbps v fmt = Inr (rnd64 (of_int br / 1000000))) \<and>
   (bit_rate v = None \<and> fmt_duration fmt = None \<longrightarrow>
        get_video_bitrate_mbps v fmt =
          Inr (rnd64 (rnd64 (fmul (rnd64 (of_int (get_or (fmt_size fmt) 0))) 8 / 1) / 1000000))) \<and>
   (\<forall>d. bit_rate v = None \<and> fmt_duration fmt = Some d \<and> d \<noteq> 0 \<longrightarrow>
        get_video_bitrate_mbps v fmt =
          Inr (rnd64 (rnd64 (fmul (rnd64 (of_int (get_or (fmt_size fmt) 0))) 8 / rnd64 d) / 1000000))) \<and>
   (bit_rate v = None \<and> fmt_duration fmt = Some 0 \<longrightarrow>
        get_video_bitrate_mbps v fmt = Inl ZeroDivisionError)"
  by (simp add: get_video_bitrate_mbps_def py_truediv_def get_or_def rnd64_1 rnd64_eq_0_iff)

theorem get_video_bitrate_mbps_cases_witness:
  "get_video_bitrate_mbps ex_uhd_dv ex_format = Inr 16 \<and>
   get_video_bitrate_mbps ex_no_bit_rate ex_format = Inr 10 \<and>
   get_video_bitrate_mbps ex_no_bit_rate ex_format_no_duration = Inr 72000"
proof -
  have 1: "bit_rate ex_uhd_dv = Some 16000000" by code_simp
  have 2: "bit_rate ex_no_bit_rate = None" by code_simp
  have 3: "fmt_duration ex_format = Some 7200 \<and> (7200::rat) \<noteq> 0" by code_simp
  have 4: "fmt_duration ex_format_no_duration = None" by code_simp
  have 5: "rnd64 (of_int 16000000 / 1000000) = 16" by code_simp
  have 6: "rnd64 (rnd64 (fmul (rnd64 (of_int (get_or (fmt_size ex_format) 0))) 8 / rnd64 7200)
             / 1000000) = 10" by code_simp
  have 7: "rnd64 (rnd64 (fmul (rnd64 (of_int (get_or (fmt_size ex_format_no_duration) 0))) 8 / 1)
             / 1000000) = 72000" by code_simp
  from get_video_bitrate_mbps_cases [of ex_uhd_dv ex_format] 1 5
  have a: "get_video_bitrate_mbps ex_uhd_dv ex_format = Inr 16" by simp
  from get_video_bitrate_mbps_cases [of ex_no_bit_rate ex_format] 2 3 6
  have b: "get_video_bitrate_mbps ex_no_bit_rate ex_format = Inr 10" by simp
  from get_video_bitrate_mbps_cases [of ex_no_bit_rate ex_format_no_duration] 2 4 7
  have c: "get_video_bitrate_mbps ex_no_bit_rate ex_format_no_duration = Inr 72000" by simp
  from a b c show ?thesis by simp
qed

text \<open>
  The claim as first stated, that the fallback never divides by zero, fails for a
  container whose duration is present and zero.
\<close>

theorem zero_duration_raises:
  "get_video_bitrate_mbps ex_no_bit_rate ex_format_zero_duration = Inl ZeroDivisionError"
  by code_simp

section \<open>HDR and Dolby Vision\<close>

lemma video_step_flags:
  "video_step v (h0, d0) = (hdr_label v, h0 \<or> stream_is_hdr v, d0 \<or> stream_is_dv v)"
  by (simp add: video_step_def hdr_label_def stream_is_hdr_def stream_is_dv_def Let_def)

lemma video_loop_flags:
  "video_loop fmt vs (h0, d0) ls = Inr ((h, d), ls') \<Longrightarrow>
     h = (h0 \<or> (\<exists>v \<in> set vs. stream_is_hdr v)) \<and> d = (d0 \<or> (\<exists>v \<in> set vs. stream_is_dv v))"
proof (induction vs arbitrary: h0 d0 ls)
  case Nil
  then show ?case by simp
next
  case (Cons v vs)
  from Cons.prems obtain vbps where
    "video_loop fmt vs (h0 \<or> stream_is_hdr v, d0 \<or> stream_is_dv v)
       (ls @ [VideoLine (hdr_label v) vbps]) = Inr ((h, d), ls')"
    by (auto simp: video_step_flags split: sum.splits)
  from Cons.IH [OF this] show ?case by auto
qed

lemma stream_dv_hdr: "stream_is_dv v \<Longrightarrow> stream_is_hdr v"
  by (simp add: stream_is_dv_def stream_is_hdr_def video_step_def Let_def split: if_splits)

text \<open>
  C4. A video stream classified as Dolby Vision is classified as HDR, and not the other
  way round (an HDR10 stream is HDR without being Dolby Vision). The label is Dolby
  Vision when Dolby Vision is detected, else HDR when the transfer is smpte2084 or
  arib-std-b67, else SDR. The flags of a file keep the implication.
\<close>

theorem dolby_vision_implies_hdr:
  "(stream_is_dv v \<longrightarrow> stream_is_hdr v) \<and>
   (stream_is_hdr ex_hdr10 \<and> \<not> stream_is_dv ex_hdr10) \<and>
   hdr_label v =
     (if detect_dolby_vision v then ''Dolby Vision''
      else if get_or (color_transfer v) [] = ''smpte2084'' \<or>
              get_or (color_transfer v) [] = ''arib-std-b67'' then ''HDR''
      else ''SDR'') \<and>
   (stream_is_dv v \<longleftrightarrow> detect_dolby_vision v) \<and>
   (stream_is_hdr v \<longleftrightarrow> hdr_label v \<noteq> ''SDR'') \<and>
   (\<forall>fmt vs ls h d ls'.
      video_loop fmt vs (False, False) ls = Inr ((h, d), ls') \<longrightarrow> (d \<longrightarrow> h))"
proof (intro conjI)
  show "stream_is_dv v \<longrightarrow> stream_is_hdr v" by (simp add: stream_dv_hdr)
  show "stream_is_hdr ex_hdr10" by code_simp
  show "\<not> stream_is_dv ex_hdr10" by code_simp
  show "hdr_label v =
     (if detect_dolby_vision v then ''Dolby Vision''
      else if get_or (color_transfer v) [] = ''smpte2084'' \<or>
              get_or (color_transfer v) [] = ''arib-std-b67'' then ''HDR''
      else ''SDR'')"
    by (simp add: hdr_label_def video_step_def Let_def)
  show "stream_is_dv v \<longleftrightarrow> detect_dolby_vision v"
    by (simp add: stream_is_dv_def video_step_def Let_def)
  show "stream_is_hdr v \<longleftrightarrow> hdr_label v \<noteq> ''SDR''"
    by (simp add: stream_is_hdr_def hdr_label_def video_step_def Let_def)
  show "\<forall>fmt vs ls h d ls'.
      video_loop fmt vs (False, False) ls = Inr ((h, d), ls') \<longrightarrow> (d \<longrightarrow> h)"
    using video_loop_flags stream_dv_hdr by blast
qed

theorem dolby_vision_implies_hdr_witness:
  "stream_is_dv ex_hd_dv \<and> stream_is_hdr ex_hd_dv \<and> hdr_label ex_hd_dv = ''Dolby Vision'' \<and>
   video_loop no_format [ex_hdr10, ex_hd_dv] (False, False) [] =
     Inr ((True, True), [VideoLine ''HDR'' 0, VideoLine ''Dolby Vision'' 5])"
proof -
  have dv: "stream_is_dv ex_hd_dv" by code_simp
  have l: "video_loop no_format [ex_hdr10, ex_hd_dv] (False, False) [] =
     Inr ((True, True), [VideoLine ''HDR'' 0, VideoLine ''Dolby Vision'' 5])" by code_simp
  from dolby_vision_implies_hdr [of ex_hd_dv] dv
  have "stream_is_hdr ex_hd_dv" and "detect_dolby_vision ex_hd_dv" by simp_all
  moreover from this dolby_vision_implies_hdr [of ex_hd_dv]
  have "hdr_label ex_hd_dv = ''Dolby Vision''" by simp
  ultimately show ?thesis using dv l by simp
qed

section \<open>The audio scorer\<close>

lemma spec_tier_score_eac3:
  "spec_tier_score [(640, a), (448, b), (384, c), (256, d)] e br =
     (if 640 \<le> br then a else if 448 \<le> br then b else if 384 \<le> br then c
      else if 256 \<le> br then d else e)"
  by (simp add: spec_tier_score_def)

lemma spec_tier_score_ac3:
  "spec_tier_score [(640, a), (448, b)] e br =
     (if 640 \<le> br then a else if 448 \<le> br then b else e)"
  by (simp add: spec_tier_score_def)

lemma base_score_spec:
  "(if codec = ''truehd'' \<or> (startswith codec ''dts'' \<and> py_in ''hd'' prof) then 5
    else if codec = ''eac3'' then
      (if 640 \<le> br then rnd64 (46 / 10)
       else if 448 \<le> br then rnd64 (42 / 10)
       else if 384 \<le> br then rnd64 (38 / 10)
       else if 256 \<le> br then rnd64 (33 / 10)
       else rnd64 (24 / 10))
    else if codec = ''ac3'' then
      (if 640 \<le> br then rnd64 (38 / 10)
       else if 448 \<le> br then rnd64 (34 / 10)
       else 3)
    else if codec = ''aac'' then
      (if 6 \<le> ch \<and> 384 \<le> br then 3
       else if 2 \<le> ch then rnd64 (24 / 10)
       else 2)
    else 2) = spec_base_score codec prof ch br"
  unfolding spec_base_score_def spec_lossless_def spec_tier_score_eac3 spec_tier_score_ac3 ..

lemma channel_bonus_spec:
  "(if 8 \<le> ch then fadd b (rnd64 (2 / 10))
    else if 6 \<le> ch then fadd b (rnd64 (1 / 10))
    else b) = add_bonus b (spec_channel_bonus ch)"
  by (simp add: add_bonus_def spec_channel_bonus_def)

lemma object_bonus_spec:
  "(if is_object then
      (if codec = ''truehd'' \<or> (startswith codec ''dts'' \<and> py_in ''hd'' prof) then s
       else if codec = ''eac3'' \<and> 448 \<le> br then fadd s (rnd64 (15 / 100))
       else if startswith codec ''dts'' \<and> 1500 \<le> br then fadd s (rnd64 (15 / 100))
       else s)
    else s) = add_bonus s (spec_object_bonus codec prof is_object br)"
  by (simp add: add_bonus_def spec_object_bonus_def spec_lossless_def)

lemma audio_stream_score_eq:
  "audio_stream_score a =
     (case audio_br_kbps a of
        Inl e \<Rightarrow> Inl e
      | Inr br \<Rightarrow>
          Inr (spec_audio_stream_score (get_or (codec_name a) [])
                 (py_lower (get_or (profile a) [])) (get_or (channels a) 0)
                 (fst (detect_object_audio a)) br))"
proof (cases "audio_br_kbps a")
  case (Inl e)
  then show ?thesis by (simp add: audio_stream_score_def)
next
  case (Inr br)
  obtain ob hay where d: "detect_object_audio a = (ob, hay)"
    by (cases "detect_object_audio a")
  show ?thesis
    unfolding audio_stream_score_def Let_def
    by (simp only: Inr d sum.case prod.case fst_conv base_score_spec channel_bonus_spec
          object_bonus_spec spec_audio_stream_score_def)
qed

lemma audio_stream_score_le_5: "audio_stream_score a = Inr s \<Longrightarrow> s \<le> 5"
  by (auto simp: audio_stream_score_eq spec_audio_stream_score_def split: sum.splits)

text \<open>
  C5. For every audio stream the per-stream score is the specification's: the base score
  of the codec family and bitrate tier (5.0 for a lossless stream), plus the channel
  bonus (0.2 from 8 channels, else 0.1 from 6), plus the object-audio bonus of 0.15
  (only with object markers, on eac3 from 448 kbps or a dts codec from 1500 kbps, never
  on a lossless stream), clamped to 5.0. The scorer raises only when the bitrate cannot
  be read.
\<close>

theorem audio_stream_score_spec:
  "audio_stream_score a =
     (case audio_br_kbps a of
        Inl e \<Rightarrow> Inl e
      | Inr br \<Rightarrow>
          Inr (spec_audio_stream_score (get_or (codec_name a) [])
                 (py_lower (get_or (profile a) [])) (get_or (channels a) 0)
                 (fst (detect_object_audio a)) br)) \<and>
   (\<forall>s. audio_stream_score a = Inr s \<longrightarrow> s \<le> 5) \<and>
   (\<forall>codec prof ch ob br. spec_lossless codec prof \<longrightarrow>
      spec_base_score codec prof ch br = 5 \<and> spec_object_bonus codec prof ob br = None) \<and>
   (\<forall>codec prof br. spec_object_bonus codec prof False br = None)"
  using audio_stream_score_eq [of a] audio_stream_score_le_5 [of a]
  by (simp add: spec_base_score_def spec_object_bonus_def)

theorem audio_stream_score_spec_witness:
  "audio_stream_score ex_eac3 = Inr (rnd64 (46 / 10)) \<and>
   audio_br_kbps ex_eac3 = Inr 640 \<and>
   spec_audio_stream_score ''eac3'' [] 2 False 640 = rnd64 (46 / 10) \<and>
   rnd64 (46 / 10) \<le> 5 \<and>
   audio_stream_score ex_truehd = Inr 5"
proof -
  have b: "audio_br_kbps ex_eac3 = Inr 640" by code_simp
  have f: "get_or (codec_name ex_eac3) [] = ''eac3'' \<and> py_lower (get_or (profile ex_eac3) []) = []
     \<and> get_or (channels ex_eac3) 0 = 2 \<and> fst (detect_object_audio ex_eac3) = False" by code_simp
  have s: "spec_audio_stream_score ''eac3'' [] 2 False 640 = rnd64 (46 / 10)" by code_simp
  have b2: "audio_br_kbps ex_truehd = Inr 0" by code_simp
  have f2: "get_or (codec_name ex_truehd) [] = ''truehd'' \<and> get_or (channels ex_truehd) 0 = 8
     \<and> fst (detect_object_audio ex_truehd) = True
     \<and> py_lower (get_or (profile ex_truehd) []) = ''dolby truehd + dolby atmos''" by code_simp
  have s2: "spec_audio_stream_score ''truehd'' ''dolby truehd + dolby atmos'' 8 True 0 = 5"
    by code_simp
  from audio_stream_score_spec [of ex_eac3] b f s
  have 1: "audio_stream_score ex_eac3 = Inr (rnd64 (46 / 10))" by simp
  with audio_stream_score_spec [of ex_eac3] have 2: "rnd64 (46 / 10) \<le> 5" by simp
  from audio_stream_score_spec [of ex_truehd] b2 f2 s2
  have 3: "audio_stream_score ex_truehd = Inr 5" by simp
  from 1 2 3 b s show ?thesis by simp
qed

section \<open>The audio score of a file\<close>

lemma spec_base_score_nonneg: "0 \<le> spec_base_score codec prof ch br"
  unfolding spec_base_score_def spec_tier_score_eac3 spec_tier_score_ac3
  by (simp add: rnd64_nonneg)

lemma add_bonus_nonneg:
  "0 \<le> s \<Longrightarrow> (\<And>x. b = Some x \<Longrightarrow> 0 \<le> x) \<Longrightarrow> 0 \<le> add_bonus s b"
  by (cases b) (simp_all add: add_bonus_def fadd_def rnd64_nonneg)

lemma audio_stream_score_nonneg:
  assumes "audio_stream_score a = Inr s"
  shows "0 \<le> s"
proof -
  have c: "0 \<le> add_bonus (spec_base_score codec prof ch br) (spec_channel_bonus ch)"
    for codec prof ch br
    by (rule add_bonus_nonneg)
       (auto simp: spec_base_score_nonneg spec_channel_bonus_def rnd64_nonneg split: if_splits)
  have "0 \<le> spec_audio_stream_score codec prof ch ob br" for codec prof ch ob br
    unfolding spec_audio_stream_score_def
    using add_bonus_nonneg [OF c, of "spec_object_bonus codec prof ob br" codec prof ch br]
    by (auto simp: spec_object_bonus_def rnd64_nonneg split: if_splits)
  with assms show ?thesis
    by (auto simp: audio_stream_score_eq split: sum.splits)
qed

lemma collect_Inr_iff: "collect rs = Inr xs \<longleftrightarrow> rs = map Inr xs"
proof (induction rs arbitrary: xs)
  case Nil
  then show ?case by auto
next
  case (Cons r rs)
  show ?case
  proof (cases r)
    case (Inl e)
    then show ?thesis by auto
  next
    case (Inr x)
    show ?thesis
    proof (cases "collect rs")
      case (Inl e)
      with Cons.IH have "\<And>ys. rs \<noteq> map Inr ys" by auto
      with Inl Inr show ?thesis by auto
    next
      case c: (Inr ys)
      with Cons.IH [of ys] have rs: "rs = map Inr ys" by blast
      then have "Inr x # rs = map Inr xs \<longleftrightarrow> xs = x # ys"
        by (auto simp: Cons_eq_map_conv inj_map_eq_map [OF inj_Inr])
      with Inr c show ?thesis by auto
    qed
  qed
qed

lemma audio_loop_collect:
  "audio_loop best strs =
     (case collect (map audio_stream_score (audio_streams_of strs)) of
        Inl e \<Rightarrow> Inl e
      | Inr ss \<Rightarrow> Inr (fold max ss best))"
proof (induction strs arbitrary: best)
  case Nil
  then show ?case by (simp add: audio_streams_of_def)
next
  case (Cons a strs)
  show ?case
  proof (cases "codec_type a = Some ''audio''")
    case False
    then show ?thesis using Cons.IH [of best] by (simp add: audio_streams_of_def)
  next
    case True
    then show ?thesis
      using Cons.IH by (simp add: audio_streams_of_def max.commute split: sum.splits)
  qed
qed

lemma fold_max_Max: "fold max ss (best::rat) = Max (insert best (set ss))"
  using Max.set_eq_fold [of best ss] by simp

lemma audio_score_Max:
  assumes "collect (map audio_stream_score (audio_streams_of strs)) = Inr ss"
  shows "compute_audio_score strs = Inr (Max (insert 0 (set ss)))"
  using assms by (simp add: compute_audio_score_def audio_loop_collect fold_max_Max)

lemma collect_scores_nonneg:
  assumes "collect (map audio_stream_score (audio_streams_of strs)) = Inr ss"
  shows "\<forall>s \<in> set ss. 0 \<le> s"
proof
  fix s assume "s \<in> set ss"
  then have "Inr s \<in> set (map audio_stream_score (audio_streams_of strs))"
    using assms by (simp add: collect_Inr_iff)
  then show "0 \<le> s" by (auto dest: audio_stream_score_nonneg [OF sym])
qed

lemma Max_insert_0:
  assumes "ss \<noteq> []" and "\<forall>s \<in> set ss. (0::rat) \<le> s"
  shows "Max (insert 0 (set ss)) = Max (set ss)"
proof -
  from assms(1) have ne: "set ss \<noteq> {}" by simp
  then have "Max (insert 0 (set ss)) = max 0 (Max (set ss))" by simp
  moreover have "0 \<le> Max (set ss)"
  proof -
    from assms(1) obtain a where a: "a \<in> set ss" by (cases ss) auto
    with assms(2) have "0 \<le> a" by simp
    also have "a \<le> Max (set ss)" using a by simp
    finally show ?thesis .
  qed
  ultimately show ?thesis by simp
qed

lemma audio_streams_of_insert:
  "codec_type a = Some ''audio'' \<Longrightarrow>
   audio_streams_of (xs @ a # ys) = audio_streams_of xs @ a # audio_streams_of ys"
  by (simp add: audio_streams_of_def)

text \<open>
  C6. When every audio stream of a file has a score, the file's audio score is the
  maximum of the scores of its streams of codec type audio (0.0 when it has none), so it
  is one of these scores and not their average. Adding an audio stream to the file gives
  the maximum of the old score and the new stream's score: a lower-scoring stream leaves
  the score as it was, and no stream lowers it.
\<close>

theorem compute_audio_score_max:
  assumes "collect (map audio_stream_score (audio_streams_of strs)) = Inr ss"
  shows "\<exists>r. compute_audio_score strs = Inr r \<and>
           r = (if ss = [] then 0 else Max (set ss)) \<and>
           (ss \<noteq> [] \<longrightarrow> r \<in> set ss) \<and>
           (\<forall>s \<in> set ss. s \<le> r) \<and>
           (\<forall>a s xs ys. strs = xs @ ys \<and> codec_type a = Some ''audio'' \<and>
                audio_stream_score a = Inr s \<longrightarrow>
                compute_audio_score (xs @ a # ys) = Inr (max s r) \<and> r \<le> max s r \<and>
                (s \<le> r \<longrightarrow> compute_audio_score (xs @ a # ys) = Inr r))"
proof -
  define r where "r = Max (insert 0 (set ss))"
  have nn: "\<forall>s \<in> set ss. 0 \<le> s" using assms by (rule collect_scores_nonneg)
  have r: "compute_audio_score strs = Inr r" using assms by (simp add: audio_score_Max r_def)
  have r_eq: "r = (if ss = [] then 0 else Max (set ss))"
    using nn by (simp add: r_def Max_insert_0)
  have mem: "ss \<noteq> [] \<longrightarrow> r \<in> set ss"
    using r_eq Max_in [of "set ss"] by simp
  have ub: "\<forall>s \<in> set ss. s \<le> r" by (simp add: r_def)
  have add: "compute_audio_score (xs @ a # ys) = Inr (max s r)"
    if "strs = xs @ ys" "codec_type a = Some ''audio''" "audio_stream_score a = Inr s"
    for a s xs ys
  proof -
    from assms that(1) have "map audio_stream_score (audio_streams_of xs) @
        map audio_stream_score (audio_streams_of ys) = map Inr ss"
      by (simp add: collect_Inr_iff audio_streams_of_def)
    then obtain s1 s2 where ss: "ss = s1 @ s2"
      and 1: "map audio_stream_score (audio_streams_of xs) = map Inr s1"
      and 2: "map audio_stream_score (audio_streams_of ys) = map Inr s2"
      by (auto simp: append_eq_map_conv)
    have "collect (map audio_stream_score (audio_streams_of (xs @ a # ys))) = Inr (s1 @ s # s2)"
      using 1 2 that(2,3) by (simp add: collect_Inr_iff audio_streams_of_insert)
    then have "compute_audio_score (xs @ a # ys) = Inr (Max (insert 0 (set (s1 @ s # s2))))"
      by (rule audio_score_Max)
    also have "insert 0 (set (s1 @ s # s2)) = insert s (insert 0 (set ss))"
      using ss by auto
    also have "Max (insert s (insert 0 (set ss))) = max s r"
      by (simp add: r_def)
    finally show ?thesis .
  qed
  have add': "compute_audio_score (xs @ a # ys) = Inr (max s r) \<and> r \<le> max s r \<and>
      (s \<le> r \<longrightarrow> compute_audio_score (xs @ a # ys) = Inr r)"
    if "strs = xs @ ys \<and> codec_type a = Some ''audio'' \<and> audio_stream_score a = Inr s"
    for a s xs ys
    using add [of xs ys a s] that by (simp add: max_absorb2)
  from r r_eq mem ub add' show ?thesis by blast
qed

theorem compute_audio_score_max_witness:
  "collect (map audio_stream_score (audio_streams_of [ex_uhd_dv, ex_truehd])) = Inr [5] \<and>
   audio_stream_score ex_aac = Inr (rnd64 (24 / 10)) \<and>
   compute_audio_score [ex_uhd_dv, ex_truehd] = Inr 5 \<and>
   compute_audio_score [ex_uhd_dv, ex_aac, ex_truehd] = Inr 5"
proof -
  have c: "collect (map audio_stream_score (audio_streams_of ([ex_uhd_dv] @ [ex_truehd]))) = Inr [5]"
    by code_simp
  have a: "audio_stream_score ex_aac = Inr (rnd64 (24 / 10))" by code_simp
  have t: "codec_type ex_aac = Some ''audio''" by code_simp
  have le: "rnd64 (24 / 10) \<le> 5" by code_simp
  from compute_audio_score_max [OF c]
  have 1: "compute_audio_score ([ex_uhd_dv] @ [ex_truehd]) = Inr 5"
    and 2: "\<And>a s xs ys. [ex_uhd_dv] @ [ex_truehd] = xs @ ys \<Longrightarrow> codec_type a = Some ''audio'' \<Longrightarrow>
                audio_stream_score a = Inr s \<Longrightarrow> s \<le> 5 \<Longrightarrow>
                compute_audio_score (xs @ a # ys) = Inr 5"
    by auto
  from 2 [OF refl t a le] have "compute_audio_score ([ex_uhd_dv] @ ex_aac # [ex_truehd]) = Inr 5" .
  with 1 c a show ?thesis by simp
qed

section \<open>Python's max\<close>

lemma foldl_max_split:
  assumes tr: "\<And>a b c. lt a b \<Longrightarrow> lt b c \<Longrightarrow> lt a c"
    and ntr: "\<And>a b c. \<not> lt a b \<Longrightarrow> \<not> lt b c \<Longrightarrow> \<not> lt a c"
  shows "\<exists>pre post. x # ys =
            pre @ foldl (\<lambda>best y. if lt (key best) (key y) then y else best) x ys # post \<and>
          (\<forall>y \<in> set pre.
             lt (key y) (key (foldl (\<lambda>best y. if lt (key best) (key y) then y else best) x ys))) \<and>
          (\<forall>y \<in> set post.
             \<not> lt (key (foldl (\<lambda>best y. if lt (key best) (key y) then y else best) x ys)) (key y))"
proof (induction ys rule: rev_induct)
  case Nil
  show ?case by (intro exI [of _ "[]"]) simp
next
  case (snoc z zs)
  define r where "r = foldl (\<lambda>best y. if lt (key best) (key y) then y else best) x zs"
  from snoc obtain pre post where split: "x # zs = pre @ r # post"
    and pre: "\<forall>y \<in> set pre. lt (key y) (key r)"
    and post: "\<forall>y \<in> set post. \<not> lt (key r) (key y)"
    unfolding r_def by blast
  show ?case
  proof (cases "lt (key r) (key z)")
    case True
    have "\<forall>y \<in> set (x # zs). lt (key y) (key z)"
    proof
      fix y assume "y \<in> set (x # zs)"
      then consider "y \<in> set pre" | "y = r" | "y \<in> set post" unfolding split by auto
      then show "lt (key y) (key z)"
      proof cases
        case 1
        with pre True show ?thesis by (blast intro: tr)
      next
        case 2
        with True show ?thesis by simp
      next
        case 3
        with post have "\<not> lt (key r) (key y)" by simp
        with True ntr [of "key r" "key y" "key z"] show ?thesis by blast
      qed
    qed
    moreover have "x # zs @ [z] = (x # zs) @ z # []" by simp
    ultimately show ?thesis
      using True unfolding foldl_append r_def [symmetric] by (intro exI [of _ "x # zs"] exI [of _ "[]"]) simp
  next
    case False
    have "x # zs @ [z] = pre @ r # (post @ [z])" using split by simp
    moreover have "\<forall>y \<in> set (post @ [z]). \<not> lt (key r) (key y)" using post False by simp
    ultimately show ?thesis
      using False pre unfolding foldl_append r_def [symmetric]
      by (intro exI [of _ pre] exI [of _ "post @ [z]"]) simp
  qed
qed

lemma py_max_by_split:
  assumes tr: "\<forall>a b c. lt a b \<longrightarrow> lt b c \<longrightarrow> lt a c"
    and ntr: "\<forall>a b c. \<not> lt a b \<longrightarrow> \<not> lt b c \<longrightarrow> \<not> lt a c"
    and ne: "xs \<noteq> []"
  shows "\<exists>best pre post. py_max_by lt key xs = Inr best \<and> xs = pre @ best # post \<and>
          (\<forall>y \<in> set pre. lt (key y) (key best)) \<and>
          (\<forall>y \<in> set post. \<not> lt (key best) (key y))"
proof -
  from ne obtain x ys where xs: "xs = x # ys" by (cases xs) auto
  have 1: "\<And>a b c. lt a b \<Longrightarrow> lt b c \<Longrightarrow> lt a c" using tr by blast
  have 2: "\<And>a b c. \<not> lt a b \<Longrightarrow> \<not> lt b c \<Longrightarrow> \<not> lt a c" using ntr by blast
  from foldl_max_split [of lt x ys key, OF 1 2] show ?thesis
    unfolding xs py_max_by_def by auto
qed

lemma py_max_by_Nil: "py_max_by lt key [] = Inl ValueError"
  by (simp add: py_max_by_def)

lemma tuple_less_trans: "tuple_less a b \<Longrightarrow> tuple_less b c \<Longrightarrow> tuple_less a c"
  by (cases a; cases b; cases c) auto

lemma tuple_less_ntrans: "\<not> tuple_less a b \<Longrightarrow> \<not> tuple_less b c \<Longrightarrow> \<not> tuple_less a c"
  by (cases a; cases b; cases c) auto

section \<open>The preferred file\<close>

lemma best_file_split:
  assumes "items \<noteq> []"
  shows "\<exists>k ms vb pre post. best_file items = Inr k \<and> items = pre @ (k, (ms, vb)) # post \<and>
           (\<forall>y \<in> set pre. tuple_less (snd y) (ms, vb)) \<and>
           (\<forall>y \<in> set post. \<not> tuple_less (ms, vb) (snd y))"
proof -
  have tr: "\<forall>a b c. tuple_less a b \<longrightarrow> tuple_less b c \<longrightarrow> tuple_less a c"
    using tuple_less_trans by blast
  have ntr: "\<forall>a b c. \<not> tuple_less a b \<longrightarrow> \<not> tuple_less b c \<longrightarrow> \<not> tuple_less a c"
    using tuple_less_ntrans by blast
  from py_max_by_split [of tuple_less items "\<lambda>x. (fst (snd x), snd (snd x))", OF tr ntr assms]
  obtain best pre post where b: "py_max_by tuple_less (\<lambda>x. (fst (snd x), snd (snd x))) items = Inr best"
    and s: "items = pre @ best # post"
    and p: "\<forall>y \<in> set pre. tuple_less (snd y) (snd best)"
    and q: "\<forall>y \<in> set post. \<not> tuple_less (snd best) (snd y)"
    by auto
  obtain k ms vb where best: "best = (k, (ms, vb))" by (cases best) auto
  from b s p q show ?thesis unfolding best best_file_def by auto
qed

text \<open>
  C8. In a run with more than one supplied file the preferred file is chosen from the
  accumulated mapping from path to (media score, video bitrate): it is an entry whose
  pair no entry exceeds in the lexicographic order, so among entries with equal media
  score the one with the higher bitrate is selected (the first such entry, when several
  have the greatest pair).
\<close>

theorem best_file_lexicographic:
  "(items \<noteq> [] \<longrightarrow>
      (\<exists>k ms vb pre post. best_file items = Inr k \<and> items = pre @ (k, (ms, vb)) # post \<and>
         (\<forall>(k', m', b') \<in> set items. m' < ms \<or> (m' = ms \<and> b' \<le> vb)) \<and>
         (\<forall>(k', m', b') \<in> set pre. m' < ms \<or> (m' = ms \<and> b' < vb)) \<and>
         (\<forall>k1 k2 m b1 b2. (k1, (m, b1)) \<in> set items \<and> (k2, (m, b2)) \<in> set items \<and> b1 < b2 \<longrightarrow>
            (ms, vb) \<noteq> (m, b1)))) \<and>
   (2 < length argv \<and> main w argv = Inr st' \<longrightarrow>
      (\<exists>st best. analyze_all w (tl argv) \<lparr>file_media_score = [], out = []\<rparr> = Inr st \<and>
         best_file (file_media_score st) = Inr best \<and>
         st' = st\<lparr>out := out st @ [PreferredFile (display best)]\<rparr>))"
proof (intro conjI impI)
  assume "items \<noteq> []"
  from best_file_split [OF this] obtain k ms vb pre post where
    b: "best_file items = Inr k" and s: "items = pre @ (k, (ms, vb)) # post"
    and p: "\<forall>y \<in> set pre. tuple_less (snd y) (ms, vb)"
    and q: "\<forall>y \<in> set post. \<not> tuple_less (ms, vb) (snd y)"
    by blast
  have all: "\<forall>(k', m', b') \<in> set items. m' < ms \<or> (m' = ms \<and> b' \<le> vb)"
    unfolding s using p q by fastforce
  have pre: "\<forall>(k', m', b') \<in> set pre. m' < ms \<or> (m' = ms \<and> b' < vb)"
    using p by fastforce
  have tie: "(ms, vb) \<noteq> (m, b1)"
    if "(k1, (m, b1)) \<in> set items \<and> (k2, (m, b2)) \<in> set items \<and> b1 < b2" for k1 k2 m b1 b2
    using all that by fastforce
  from b s all pre tie
  show "\<exists>k ms vb pre post. best_file items = Inr k \<and> items = pre @ (k, (ms, vb)) # post \<and>
         (\<forall>(k', m', b') \<in> set items. m' < ms \<or> (m' = ms \<and> b' \<le> vb)) \<and>
         (\<forall>(k', m', b') \<in> set pre. m' < ms \<or> (m' = ms \<and> b' < vb)) \<and>
         (\<forall>k1 k2 m b1 b2. (k1, (m, b1)) \<in> set items \<and> (k2, (m, b2)) \<in> set items \<and> b1 < b2 \<longrightarrow>
            (ms, vb) \<noteq> (m, b1))"
    by blast
next
  assume "2 < length argv \<and> main w argv = Inr st'"
  then show "\<exists>st best. analyze_all w (tl argv) \<lparr>file_media_score = [], out = []\<rparr> = Inr st \<and>
         best_file (file_media_score st) = Inr best \<and>
         st' = st\<lparr>out := out st @ [PreferredFile (display best)]\<rparr>"
    by (auto simp: main_def split: sum.splits if_splits)
qed

theorem best_file_lexicographic_witness:
  "best_file [(''a.mkv'', (9 / 2, 18)), (''b.mkv'', (9 / 2, 22))] = Inr ''b.mkv''"
proof -
  let ?items = "[(''a.mkv'', (9 / 2 :: rat, 18 :: rat)), (''b.mkv'', (9 / 2, 22))]"
  have ne: "?items \<noteq> []" by simp
  from best_file_lexicographic [where items = ?items, THEN conjunct1, THEN mp, OF ne]
  obtain k ms vb pre post where b: "best_file ?items = Inr k"
    and s: "?items = pre @ (k, (ms, vb)) # post"
    and tie: "\<forall>k1 k2 m b1 b2. (k1, (m, b1)) \<in> set ?items \<and> (k2, (m, b2)) \<in> set ?items \<and>
        b1 < b2 \<longrightarrow> (ms, vb) \<noteq> (m, b1)"
    by (elim exE conjE) blast
  from s have "(k, (ms, vb)) \<in> set ?items" by (metis in_set_conv_decomp)
  then have "(k, ms, vb) = (''a.mkv'', 9 / 2, 18) \<or> (k, ms, vb) = (''b.mkv'', 9 / 2, 22)"
    by simp
  moreover have "(ms, vb) \<noteq> (9 / 2, 18)"
    using tie [rule_format, of "''a.mkv''" "9 / 2" 18 "''b.mkv''" 22] by simp
  ultimately have "k = ''b.mkv''" by auto
  with b show ?thesis by simp
qed

section \<open>The primary video stream\<close>

lemma video_loop_list_ex:
  assumes "video_loop fmt vs (False, False) ls = Inr ((h, d), ls')"
  shows "h = list_ex stream_is_hdr vs \<and> d = list_ex stream_is_dv vs"
  using video_loop_flags [OF assms] by (simp add: list_ex_iff)

lemma max_width_split:
  assumes "xs \<noteq> []"
  shows "\<exists>best pre post. py_max_by (<) (\<lambda>x. get_or (width x) (0::int)) xs = Inr best \<and>
           xs = pre @ best # post \<and>
           (\<forall>v \<in> set pre. get_or (width v) 0 < get_or (width best) 0) \<and>
           (\<forall>v \<in> set post. get_or (width v) 0 \<le> get_or (width best) 0)"
proof -
  have tr: "\<forall>a b c :: int. a < b \<longrightarrow> b < c \<longrightarrow> a < c" by auto
  have ntr: "\<forall>a b c :: int. \<not> a < b \<longrightarrow> \<not> b < c \<longrightarrow> \<not> a < c" by auto
  from py_max_by_split [of "(<)" xs "\<lambda>x. get_or (width x) (0::int)", OF tr ntr assms]
  show ?thesis by (simp add: not_less)
qed

lemma video_streams_of_set:
  "v \<in> set (video_streams_of strs) \<Longrightarrow>
     v \<in> set strs \<and> codec_type v = Some ''video'' \<and> get_or (attached_pic v) 0 \<noteq> 1"
  by (simp add: video_streams_of_def)

lemma video_score_of_primary_stream_aux:
  "score_file data = Inr ((ms, vbps, vd), ls) \<Longrightarrow>
     \<exists>best pre post vs a.
        video_streams_of (streams data) = pre @ best # post \<and>
        (\<forall>v \<in> set pre. get_or (width v) 0 < get_or (width best) 0) \<and>
        (\<forall>v \<in> set post. get_or (width v) 0 \<le> get_or (width best) 0) \<and>
        codec_type best = Some ''video'' \<and> get_or (attached_pic best) 0 \<noteq> 1 \<and>
        compute_video_score best (format data)
          (list_ex stream_is_hdr (video_streams_of (streams data)))
          (list_ex stream_is_dv (video_streams_of (streams data))) = Inr (vs, vbps, vd) \<and>
        compute_audio_score (audio_streams_of (streams data)) = Inr a \<and>
        ms = media_score_of vs a"
proof -
  assume sf: "score_file data = Inr ((ms, vbps, vd), ls)"
  define V where "V = video_streams_of (streams data)"
  from sf obtain h d vl where vl: "video_loop (format data) V (False, False) [] = Inr ((h, d), vl)"
    by (auto simp: score_file_def V_def Let_def split: sum.splits)
  from sf vl obtain best where best: "py_max_by (<) (\<lambda>x. get_or (width x) (0::int)) V = Inr best"
    by (auto simp: score_file_def V_def [symmetric] Let_def split: sum.splits)
  from sf vl best obtain vs where vs: "compute_video_score best (format data) h d = Inr (vs, vbps, vd)"
    by (auto simp: score_file_def V_def [symmetric] Let_def split: sum.splits)
  from sf vl best vs obtain a where a: "compute_audio_score (audio_streams_of (streams data)) = Inr a"
    and ms: "ms = media_score_of vs a"
    by (auto simp: score_file_def V_def [symmetric] Let_def split: sum.splits)
  from best have "V \<noteq> []" by (auto simp: py_max_by_def)
  from max_width_split [OF this] best obtain pre post where split: "V = pre @ best # post"
    and pre: "\<forall>v \<in> set pre. get_or (width v) 0 < get_or (width best) 0"
    and post: "\<forall>v \<in> set post. get_or (width v) 0 \<le> get_or (width best) 0"
    by auto
  from split have "best \<in> set (video_streams_of (streams data))" by (simp add: V_def [symmetric])
  then have q: "codec_type best = Some ''video'' \<and> get_or (attached_pic best) 0 \<noteq> 1"
    by (simp add: video_streams_of_set)
  from video_loop_list_ex [OF vl] vs
  have "compute_video_score best (format data) (list_ex stream_is_hdr V) (list_ex stream_is_dv V) =
      Inr (vs, vbps, vd)" by simp
  with split pre post q a ms show "\<exists>best pre post vs a.
        video_streams_of (streams data) = pre @ best # post \<and>
        (\<forall>v \<in> set pre. get_or (width v) 0 < get_or (width best) 0) \<and>
        (\<forall>v \<in> set post. get_or (width v) 0 \<le> get_or (width best) 0) \<and>
        codec_type best = Some ''video'' \<and> get_or (attached_pic best) 0 \<noteq> 1 \<and>
        compute_video_score best (format data)
          (list_ex stream_is_hdr (video_streams_of (streams data)))
          (list_ex stream_is_dv (video_streams_of (streams data))) = Inr (vs, vbps, vd) \<and>
        compute_audio_score (audio_streams_of (streams data)) = Inr a \<and>
        ms = media_score_of vs a"
    unfolding V_def by blast
qed

text \<open>
  C2 (as amended). The video score, bitrate and verdict of an analysed file are those of
  the video scorer on the file's primary video stream (the non-attached-picture video
  stream of maximum width, the first one on ties) and the container format, with the HDR
  and Dolby-Vision flags of the file: a flag is set when any non-attached-picture video
  stream of the file is classified so, whether or not it is the primary stream.
\<close>

theorem video_score_of_primary_stream:
  "score_file data = Inr ((ms, vbps, vd), ls) \<longrightarrow>
     (\<exists>best pre post vs a.
        video_streams_of (streams data) = pre @ best # post \<and>
        (\<forall>v \<in> set pre. get_or (width v) 0 < get_or (width best) 0) \<and>
        (\<forall>v \<in> set post. get_or (width v) 0 \<le> get_or (width best) 0) \<and>
        codec_type best = Some ''video'' \<and> get_or (attached_pic best) 0 \<noteq> 1 \<and>
        compute_video_score best (format data)
          (list_ex stream_is_hdr (video_streams_of (streams data)))
          (list_ex stream_is_dv (video_streams_of (streams data))) = Inr (vs, vbps, vd) \<and>
        compute_audio_score (audio_streams_of (streams data)) = Inr a \<and>
        ms = media_score_of vs a)"
  using video_score_of_primary_stream_aux [of data ms vbps vd ls] by blast

theorem video_score_of_primary_stream_witness:
  "map_sum id fst (score_file ex_two_videos) = Inr (7 / 2, 16, ''REFERENCE QUALITY'') \<and>
   compute_video_score ex_uhd_sdr no_format True True = Inr (5, 16, ''REFERENCE QUALITY'')"
proof -
  have sf: "map_sum id fst (score_file ex_two_videos) = Inr (7 / 2, 16, ''REFERENCE QUALITY'')"
    by code_simp
  then obtain ls where s: "score_file ex_two_videos = Inr ((7 / 2, 16, ''REFERENCE QUALITY''), ls)"
    by (cases "score_file ex_two_videos") auto
  have V: "video_streams_of (streams ex_two_videos) = [ex_uhd_sdr, ex_hd_dv]" by code_simp
  have f: "list_ex stream_is_hdr [ex_uhd_sdr, ex_hd_dv] \<and> list_ex stream_is_dv [ex_uhd_sdr, ex_hd_dv]
           \<and> format ex_two_videos = no_format"
    by code_simp
  have w: "get_or (width ex_uhd_sdr) 0 = 3840 \<and> get_or (width ex_hd_dv) 0 = 1920" by code_simp
  from video_score_of_primary_stream [of ex_two_videos "7 / 2" 16 "''REFERENCE QUALITY''" ls] s
  obtain best pre post vs where split: "[ex_uhd_sdr, ex_hd_dv] = pre @ best # post"
    and pre: "\<forall>v \<in> set pre. get_or (width v) 0 < get_or (width best) 0"
    and c: "compute_video_score best no_format True True = Inr (vs, 16, ''REFERENCE QUALITY'')"
    unfolding V using f by auto
  from split have "(pre = [] \<and> best = ex_uhd_sdr) \<or> (pre = [ex_uhd_sdr] \<and> best = ex_hd_dv)"
    by (auto simp: Cons_eq_append_conv append_eq_Cons_conv)
  moreover have "\<not> (pre = [ex_uhd_sdr] \<and> best = ex_hd_dv)"
    using pre w by auto
  ultimately have b: "best = ex_uhd_sdr" by auto
  have e: "compute_video_score ex_uhd_sdr no_format False True = Inr (5, 16, ''REFERENCE QUALITY'')"
    by code_simp
  have "compute_video_score ex_uhd_sdr no_format True True =
      compute_video_score ex_uhd_sdr no_format False True"
    by (simp add: compute_video_score_def Let_def split: sum.splits)
  with c b e have "vs = 5" by simp
  with c b sf show ?thesis by simp
qed

text \<open>
  The claim as first stated, that the flag fed into the table is the classification of
  the primary stream, fails: two files with the same SDR primary stream and the same
  format get different verdicts, the second file having a narrower Dolby Vision stream.
\<close>

theorem flags_of_other_stream_counterexample:
  "py_max_by (<) (\<lambda>x. get_or (width x) 0) (video_streams_of (streams ex_one_video)) = Inr ex_uhd_sdr \<and>
   py_max_by (<) (\<lambda>x. get_or (width x) 0) (video_streams_of (streams ex_two_videos)) = Inr ex_uhd_sdr \<and>
   format ex_one_video = format ex_two_videos \<and>
   hdr_label ex_uhd_sdr = ''SDR'' \<and> \<not> stream_is_hdr ex_uhd_sdr \<and> \<not> stream_is_dv ex_uhd_sdr \<and>
   compute_video_score ex_uhd_sdr (format ex_two_videos) False False = Inr (4, 16, ''GOOD'') \<and>
   map_sum id fst (score_file ex_one_video) = Inr (rnd64 (28 / 10), 16, ''GOOD'') \<and>
   map_sum id fst (score_file ex_two_videos) = Inr (7 / 2, 16, ''REFERENCE QUALITY'')"
  by code_simp

section \<open>The media score\<close>

lemma score_file_parts:
  assumes sf: "score_file data = Inr ((ms, vbps, vd), ls)"
  shows "\<exists>best vs a.
           py_max_by (<) (\<lambda>x. get_or (width x) 0) (video_streams_of (streams data)) = Inr best \<and>
           compute_video_score best (format data)
             (list_ex stream_is_hdr (video_streams_of (streams data)))
             (list_ex stream_is_dv (video_streams_of (streams data))) = Inr (vs, vbps, vd) \<and>
           compute_audio_score (audio_streams_of (streams data)) = Inr a \<and>
           ms = media_score_of vs a"
proof -
  define V where "V = video_streams_of (streams data)"
  from sf obtain h d vl where vl: "video_loop (format data) V (False, False) [] = Inr ((h, d), vl)"
    by (auto simp: score_file_def V_def Let_def split: sum.splits)
  from sf vl obtain best where best: "py_max_by (<) (\<lambda>x. get_or (width x) (0::int)) V = Inr best"
    by (auto simp: score_file_def V_def [symmetric] Let_def split: sum.splits)
  from sf vl best obtain vs where vs: "compute_video_score best (format data) h d = Inr (vs, vbps, vd)"
    by (auto simp: score_file_def V_def [symmetric] Let_def split: sum.splits)
  from sf vl best vs obtain a where a: "compute_audio_score (audio_streams_of (streams data)) = Inr a"
    and ms: "ms = media_score_of vs a"
    by (auto simp: score_file_def V_def [symmetric] Let_def split: sum.splits)
  from video_loop_list_ex [OF vl] vs
  have "compute_video_score best (format data) (list_ex stream_is_hdr V) (list_ex stream_is_dv V) =
      Inr (vs, vbps, vd)" by simp
  with best a ms show ?thesis unfolding V_def by blast
qed

text \<open>
  C7. The media score that the analysis of an existing file stores for it is
  round(min(video_score * 0.7 + audio_score * 0.3, 5.0), 2), where video_score is the
  score that the video scorer gives the file's primary video stream (the result of
  max over the file's non-attached-picture video streams by width) with the file's
  format and flags, and audio_score is the score of the audio scorer on the file's
  audio streams; the bitrate stored with it is that of the primary stream. A video score
  of 5.0 with an audio score of 4.6 gives 4.88.
\<close>

theorem media_score_formula:
  "(file_exists w (path_str w f) \<and> analyze_file w f st = Inr st' \<longrightarrow>
      (\<exists>data best vs vb vd a.
         run_ffprobe w (path_str w f) = Inr data \<and>
         py_max_by (<) (\<lambda>x. get_or (width x) 0) (video_streams_of (streams data)) = Inr best \<and>
         compute_video_score best (format data)
           (list_ex stream_is_hdr (video_streams_of (streams data)))
           (list_ex stream_is_dv (video_streams_of (streams data))) = Inr (vs, vb, vd) \<and>
         compute_audio_score (audio_streams_of (streams data)) = Inr a \<and>
         map_of (file_media_score st') (path_str w f) =
           Some (py_round (min (fadd (fmul vs (rnd64 (7 / 10))) (fmul a (rnd64 (3 / 10)))) 5) 2, vb))) \<and>
   media_score_of 5 (rnd64 (46 / 10)) = rnd64 (488 / 100)"
proof (intro conjI impI)
  assume a: "file_exists w (path_str w f) \<and> analyze_file w f st = Inr st'"
  then obtain data where data: "run_ffprobe w (path_str w f) = Inr data"
    by (auto simp: analyze_file_def Let_def split: sum.splits)
  with a obtain ms vb vd ls where sf: "score_file data = Inr ((ms, vb, vd), ls)"
    and st': "st' = \<lparr>file_media_score = AList.update (path_str w f) (ms, vb) (file_media_score st),
                     out = out st @ [FileHeader (path_str w f)] @ ls\<rparr>"
    by (auto simp: analyze_file_def Let_def split: sum.splits)
  from score_file_parts [OF sf] obtain best vs a where
    b: "py_max_by (<) (\<lambda>x. get_or (width x) 0) (video_streams_of (streams data)) = Inr best"
    and v: "compute_video_score best (format data)
           (list_ex stream_is_hdr (video_streams_of (streams data)))
           (list_ex stream_is_dv (video_streams_of (streams data))) = Inr (vs, vb, vd)"
    and au: "compute_audio_score (audio_streams_of (streams data)) = Inr a"
    and ms: "ms = media_score_of vs a"
    by blast
  have "map_of (file_media_score st') (path_str w f) =
      Some (py_round (min (fadd (fmul vs (rnd64 (7 / 10))) (fmul a (rnd64 (3 / 10)))) 5) 2, vb)"
    by (simp add: st' ms update_conv' media_score_of_def)
  with data b v au show "\<exists>data best vs vb vd a.
         run_ffprobe w (path_str w f) = Inr data \<and>
         py_max_by (<) (\<lambda>x. get_or (width x) 0) (video_streams_of (streams data)) = Inr best \<and>
         compute_video_score best (format data)
           (list_ex stream_is_hdr (video_streams_of (streams data)))
           (list_ex stream_is_dv (video_streams_of (streams data))) = Inr (vs, vb, vd) \<and>
         compute_audio_score (audio_streams_of (streams data)) = Inr a \<and>
         map_of (file_media_score st') (path_str w f) =
           Some (py_round (min (fadd (fmul vs (rnd64 (7 / 10))) (fmul a (rnd64 (3 / 10)))) 5) 2, vb)"
    by blast
next
  show "media_score_of 5 (rnd64 (46 / 10)) = rnd64 (488 / 100)" by code_simp
qed

theorem media_score_formula_witness:
  "analyze_file ex_world ''a.mkv'' empty_state =
     Inr \<lparr>file_media_score = [(''a.mkv'', (rnd64 (488 / 100), 16))],
          out = [FileHeader ''a.mkv'', VideoLine ''Dolby Vision'' 16, AudioLine (Some 640) [],
                 MediaScoreLine (rnd64 (488 / 100)), VerdictLine ''REFERENCE QUALITY'']\<rparr> \<and>
   py_max_by (<) (\<lambda>x. get_or (width x) 0) (video_streams_of (streams ex_movie)) = Inr ex_uhd_dv \<and>
   compute_video_score ex_uhd_dv (format ex_movie)
     (list_ex stream_is_hdr (video_streams_of (streams ex_movie)))
     (list_ex stream_is_dv (video_streams_of (streams ex_movie))) =
     Inr (5, 16, ''REFERENCE QUALITY'') \<and>
   compute_audio_score (audio_streams_of (streams ex_movie)) = Inr (rnd64 (46 / 10)) \<and>
   py_round (min (fadd (fmul 5 (rnd64 (7 / 10))) (fmul (rnd64 (46 / 10)) (rnd64 (3 / 10)))) 5) 2 =
     rnd64 (488 / 100)"
proof -
  let ?st = "\<lparr>file_media_score = [(''a.mkv'', (rnd64 (488 / 100), 16 :: rat))],
          out = [FileHeader ''a.mkv'', VideoLine ''Dolby Vision'' 16, AudioLine (Some 640) [],
                 MediaScoreLine (rnd64 (488 / 100)), VerdictLine ''REFERENCE QUALITY'']\<rparr>"
  have e: "file_exists ex_world (path_str ex_world ''a.mkv'')" by code_simp
  have p: "path_str ex_world ''a.mkv'' = ''a.mkv'' \<and> run_ffprobe ex_world ''a.mkv'' = Inr ex_movie"
    by code_simp
  have an: "analyze_file ex_world ''a.mkv'' empty_state = Inr ?st" by code_simp
  have b: "py_max_by (<) (\<lambda>x. get_or (width x) 0) (video_streams_of (streams ex_movie)) = Inr ex_uhd_dv"
    by code_simp
  have v: "compute_video_score ex_uhd_dv (format ex_movie)
     (list_ex stream_is_hdr (video_streams_of (streams ex_movie)))
     (list_ex stream_is_dv (video_streams_of (streams ex_movie))) =
     Inr (5, 16, ''REFERENCE QUALITY'')" by code_simp
  have au: "compute_audio_score (audio_streams_of (streams ex_movie)) = Inr (rnd64 (46 / 10))"
    by code_simp
  from media_score_formula [of ex_world "''a.mkv''" empty_state ?st] e an
  obtain data best vs vb vd a where
    "run_ffprobe ex_world (path_str ex_world ''a.mkv'') = Inr data"
    "py_max_by (<) (\<lambda>x. get_or (width x) 0) (video_streams_of (streams data)) = Inr best"
    "compute_video_score best (format data)
       (list_ex stream_is_hdr (video_streams_of (streams data)))
       (list_ex stream_is_dv (video_streams_of (streams data))) = Inr (vs, vb, vd)"
    "compute_audio_score (audio_streams_of (streams data)) = Inr a"
    "map_of (file_media_score ?st) (path_str ex_world ''a.mkv'') =
       Some (py_round (min (fadd (fmul vs (rnd64 (7 / 10))) (fmul a (rnd64 (3 / 10)))) 5) 2, vb)"
    by blast
  with p b v au
  have "py_round (min (fadd (fmul 5 (rnd64 (7 / 10))) (fmul (rnd64 (46 / 10)) (rnd64 (3 / 10)))) 5) 2 =
     rnd64 (488 / 100)" by simp
  with an b v au show ?thesis by simp
qed

section \<open>Files that are skipped, and files that abort the run\<close>

lemma analyze_file_scores:
  assumes "file_media_score st1 = file_media_score st2"
  shows "map_sum id file_media_score (analyze_file w f st1) =
         map_sum id file_media_score (analyze_file w f st2)"
  using assms by (simp add: analyze_file_def Let_def split: sum.splits prod.splits)

lemma analyze_all_scores:
  assumes "file_media_score st1 = file_media_score st2"
  shows "map_sum id file_media_score (analyze_all w fs st1) =
         map_sum id file_media_score (analyze_all w fs st2)"
  using assms
proof (induction fs arbitrary: st1 st2)
  case Nil
  then show ?case by simp
next
  case (Cons f fs)
  from analyze_file_scores [OF Cons.prems, of w f]
  consider e where "analyze_file w f st1 = Inl e" "analyze_file w f st2 = Inl e"
    | a b where "analyze_file w f st1 = Inr a" "analyze_file w f st2 = Inr b"
        "file_media_score a = file_media_score b"
    by (cases "analyze_file w f st1"; cases "analyze_file w f st2") auto
  then show ?case
  proof cases
    case 1
    then show ?thesis by simp
  next
    case 2
    with Cons.IH [of a b] show ?thesis by simp
  qed
qed

lemma analyze_all_append:
  "analyze_all w (xs @ ys) st =
     (case analyze_all w xs st of Inl e \<Rightarrow> Inl e | Inr st' \<Rightarrow> analyze_all w ys st')"
  by (induction xs arbitrary: st) (auto split: sum.splits)

lemma analyze_file_not_found:
  assumes "\<not> file_exists w (path_str w f)"
  shows "analyze_file w f st = Inr (st\<lparr>out := out st @ [FileNotFound (path_str w f)]\<rparr>)"
  using assms by (simp add: analyze_file_def)

lemma analyze_all_skip:
  assumes "\<not> file_exists w (path_str w f)"
  shows "map_sum id file_media_score (analyze_all w (xs @ f # ys) st) =
         map_sum id file_media_score (analyze_all w (xs @ ys) st)"
proof (cases "analyze_all w xs st")
  case (Inl e)
  then show ?thesis by (simp add: analyze_all_append)
next
  case (Inr st1)
  have "map_sum id file_media_score
          (analyze_all w ys (st1\<lparr>out := out st1 @ [FileNotFound (path_str w f)]\<rparr>)) =
        map_sum id file_media_score (analyze_all w ys st1)"
    by (rule analyze_all_scores) simp
  with Inr show ?thesis by (simp add: analyze_all_append analyze_file_not_found [OF assms])
qed

text \<open>
  C9. An input path that does not exist is reported and skipped: the analysis of that
  file prints "File not found" and returns before the probe and any scoring, leaving the
  mapping from files to scores as it was, and the run goes on. With the path among the
  arguments the run ends as without it, by the same exception or with the same mapping,
  so the path has no part in the choice of the preferred file.
\<close>

theorem missing_file_skipped:
  "\<not> file_exists w (path_str w f) \<longrightarrow>
     analyze_file w f st = Inr (st\<lparr>out := out st @ [FileNotFound (path_str w f)]\<rparr>) \<and>
     (\<forall>st1. analyze_file w f st = Inr st1 \<longrightarrow> file_media_score st1 = file_media_score st) \<and>
     (\<forall>xs ys st0. map_sum id file_media_score (analyze_all w (xs @ f # ys) st0) =
                   map_sum id file_media_score (analyze_all w (xs @ ys) st0)) \<and>
     (\<forall>xs ys st0 st1. analyze_all w (xs @ f # ys) st0 = Inr st1 \<longrightarrow>
        (\<exists>st2. analyze_all w (xs @ ys) st0 = Inr st2 \<and>
               file_media_score st1 = file_media_score st2 \<and>
               best_file (file_media_score st1) = best_file (file_media_score st2)))"
proof (intro impI conjI allI)
  assume m: "\<not> file_exists w (path_str w f)"
  show 1: "analyze_file w f st = Inr (st\<lparr>out := out st @ [FileNotFound (path_str w f)]\<rparr>)"
    using m by (rule analyze_file_not_found)
  show "file_media_score st1 = file_media_score st" if "analyze_file w f st = Inr st1" for st1
    using that 1 by auto
  show 3: "map_sum id file_media_score (analyze_all w (xs @ f # ys) st0) =
        map_sum id file_media_score (analyze_all w (xs @ ys) st0)" for xs ys st0
    using m by (rule analyze_all_skip)
  show "\<exists>st2. analyze_all w (xs @ ys) st0 = Inr st2 \<and>
               file_media_score st1 = file_media_score st2 \<and>
               best_file (file_media_score st1) = best_file (file_media_score st2)"
    if "analyze_all w (xs @ f # ys) st0 = Inr st1" for xs ys st0 st1
    using 3 [of xs ys st0] that by (cases "analyze_all w (xs @ ys) st0") auto
qed

theorem missing_file_skipped_witness:
  "\<not> file_exists ex_world (path_str ex_world ''missing.mkv'') \<and>
   analyze_file ex_world ''missing.mkv'' empty_state =
     Inr (empty_state\<lparr>out := out empty_state @ [FileNotFound ''missing.mkv'']\<rparr>) \<and>
   map_sum id file_media_score (analyze_all ex_world [''missing.mkv'', ''a.mkv''] empty_state) =
     Inr [(''a.mkv'', (rnd64 (488 / 100), 16))]"
proof -
  have m: "\<not> file_exists ex_world (path_str ex_world ''missing.mkv'')" by code_simp
  have p: "path_str ex_world ''missing.mkv'' = ''missing.mkv''" by code_simp
  have a: "map_sum id file_media_score (analyze_all ex_world ([] @ [''a.mkv'']) empty_state) =
     Inr [(''a.mkv'', (rnd64 (488 / 100), 16))]" by code_simp
  from missing_file_skipped [of ex_world "''missing.mkv''" empty_state] m
  have 1: "analyze_file ex_world ''missing.mkv'' empty_state =
     Inr (empty_state\<lparr>out := out empty_state @ [FileNotFound ''missing.mkv'']\<rparr>)"
    and 2: "map_sum id file_media_score (analyze_all ex_world ([] @ ''missing.mkv'' # [''a.mkv'']) empty_state) =
     map_sum id file_media_score (analyze_all ex_world ([] @ [''a.mkv'']) empty_state)"
    unfolding p by blast+
  from m 1 2 a show ?thesis by simp
qed

text \<open>
  After the files, with more than one argument, \<^verbatim>\<open>main\<close> takes the maximum over the
  mapping; when no file was scored, for instance when every path is missing, the mapping
  is empty and the maximum raises.
\<close>

lemma main_empty_mapping:
  assumes "2 < length argv"
    and "analyze_all w (tl argv) \<lparr>file_media_score = [], out = []\<rparr> = Inr st"
    and "file_media_score st = []"
  shows "main w argv = Inl ValueError"
  using assms by (simp add: main_def best_file_def py_max_by_def)

lemma no_video_streams:
  assumes "\<forall>s \<in> set strs. codec_type s \<noteq> Some ''video'' \<or> attached_pic s = Some 1"
  shows "video_streams_of strs = []"
  using assms by (auto simp: video_streams_of_def filter_empty_conv get_or_def)

lemma score_file_no_video:
  assumes "video_streams_of (streams data) = []"
  shows "score_file data = Inl ValueError"
  using assms by (simp add: score_file_def py_max_by_def)

text \<open>
  C10. The analysis of an existing file whose metadata has no video stream, or only
  attached-picture video streams, takes the maximum of an empty list: it raises
  ValueError, which nothing catches, so the run ends there, whatever files precede or
  follow, with no score and no skip for that file.
\<close>

theorem no_video_stream_aborts:
  "file_exists w (path_str w f) \<and> run_ffprobe w (path_str w f) = Inr data \<and>
   (\<forall>s \<in> set (streams data). codec_type s \<noteq> Some ''video'' \<or> attached_pic s = Some 1) \<longrightarrow>
     analyze_file w f st = Inl ValueError \<and>
     (\<forall>xs ys st0 st1. analyze_all w xs st0 = Inr st1 \<longrightarrow>
        analyze_all w (xs @ f # ys) st0 = Inl ValueError) \<and>
     (\<forall>prog xs ys st1. analyze_all w xs \<lparr>file_media_score = [], out = []\<rparr> = Inr st1 \<longrightarrow>
        main w (prog # xs @ f # ys) = Inl ValueError)"
proof (intro impI conjI allI)
  assume h: "file_exists w (path_str w f) \<and> run_ffprobe w (path_str w f) = Inr data \<and>
   (\<forall>s \<in> set (streams data). codec_type s \<noteq> Some ''video'' \<or> attached_pic s = Some 1)"
  then have "score_file data = Inl ValueError"
    by (intro score_file_no_video no_video_streams) simp
  with h show a: "analyze_file w f st = Inl ValueError" for st
    by (simp add: analyze_file_def)
  show b: "analyze_all w (xs @ f # ys) st0 = Inl ValueError"
    if "analyze_all w xs st0 = Inr st1" for xs ys st0 st1
    using that a by (simp add: analyze_all_append)
  show "main w (prog # xs @ f # ys) = Inl ValueError"
    if "analyze_all w xs \<lparr>file_media_score = [], out = []\<rparr> = Inr st1" for prog xs ys st1
    using b [OF that, of ys] by (simp add: main_def)
qed

theorem no_video_stream_aborts_witness:
  "analyze_file ex_world ''b.mkv'' empty_state = Inl ValueError \<and>
   main ex_world [''media-quality-check'', ''a.mkv'', ''b.mkv'', ''a.mkv''] = Inl ValueError"
proof -
  have h: "file_exists ex_world (path_str ex_world ''b.mkv'') \<and>
      run_ffprobe ex_world (path_str ex_world ''b.mkv'') = Inr ex_audio_only" by code_simp
  have s: "\<forall>s \<in> set (streams ex_audio_only). codec_type s \<noteq> Some ''video'' \<or> attached_pic s = Some 1"
    by code_simp
  have a: "analyze_all ex_world [''a.mkv''] \<lparr>file_media_score = [], out = []\<rparr> =
     Inr \<lparr>file_media_score = [(''a.mkv'', (rnd64 (488 / 100), 16))],
          out = [FileHeader ''a.mkv'', VideoLine ''Dolby Vision'' 16, AudioLine (Some 640) [],
                 MediaScoreLine (rnd64 (488 / 100)), VerdictLine ''REFERENCE QUALITY'']\<rparr>"
    by code_simp
  from no_video_stream_aborts [of ex_world "''b.mkv''" ex_audio_only empty_state] h s
  have 1: "analyze_file ex_world ''b.mkv'' empty_state = Inl ValueError"
    and 2: "\<And>prog xs ys st1. analyze_all ex_world xs \<lparr>file_media_score = [], out = []\<rparr> = Inr st1 \<Longrightarrow>
        main ex_world (prog # xs @ ''b.mkv'' # ys) = Inl ValueError"
    by blast+
  from 2 [OF a, of "''media-quality-check''" "[''a.mkv'']"] 1 show ?thesis by simp
qed

end
